theory Spec2Isabelle
  imports
    Main
    "HOL-Library.Word"
    "HOL-Library.Sublist"
    "HOL-Library.Char_ord"
    "HOL-Library.List_Lexorder"
begin

unbundle bit_operations_syntax

section \<open>Strings\<close>

text \<open>
  JavaScript strings are modelled as \<^typ>\<open>string\<close>, one \<^typ>\<open>char\<close> per code unit, so
  the code units are those below 256 (Latin-1). On them \<open>toLowerCase\<close> and \<open>trim\<close> are
  as in JavaScript: the capital letters are \<open>A\<close> to \<open>Z\<close> and 0xC0 to 0xDE without the
  multiplication sign 0xD7, each 32 below its small letter; white space is tab, line
  feed, vertical tab, form feed, carriage return, space and the no-break space 0xA0.
  \<open>toUpperCase\<close> leaves the type: the sharp s 0xDF becomes \<open>SS\<close>, and the upper-case forms
  of 0xFF and of the micro sign 0xB5 are the code units 0x178 and 0x39C. Its result is
  therefore a list of code units, and \<open>codeUnits\<close> gives the code units of a string.
\<close>

definition isDigit :: "char \<Rightarrow> bool" where
  \<comment> \<open>the regular expression class \<open>\\d\<close>\<close>
  "isDigit c = (48 \<le> (of_char c :: nat) \<and> (of_char c :: nat) \<le> 57)"

definition isSpace :: "char \<Rightarrow> bool" where
  "isSpace c = ((9 \<le> (of_char c :: nat) \<and> (of_char c :: nat) \<le> 13)
                \<or> (of_char c :: nat) = 32 \<or> (of_char c :: nat) = 160)"

definition trim :: "string \<Rightarrow> string" where
  "trim s = rev (dropWhile isSpace (rev (dropWhile isSpace s)))"

definition isUpper :: "char \<Rightarrow> bool" where
  "isUpper c = ((65 \<le> (of_char c :: nat) \<and> (of_char c :: nat) \<le> 90)
                \<or> (192 \<le> (of_char c :: nat) \<and> (of_char c :: nat) \<le> 222
                    \<and> (of_char c :: nat) \<noteq> 215))"

definition lowerChar :: "char \<Rightarrow> char" where
  "lowerChar c = (if isUpper c then char_of (of_char c + (32 :: nat)) else c)"

definition toLowerCase :: "string \<Rightarrow> string" where
  "toLowerCase s = map lowerChar s"

definition codeUnits :: "string \<Rightarrow> nat list" where
  "codeUnits s = map of_char s"

definition upperUnits :: "char \<Rightarrow> nat list" where
  \<comment> \<open>the code units of the upper-case form of one character\<close>
  "upperUnits c =
     (if (97 \<le> (of_char c :: nat) \<and> (of_char c :: nat) \<le> 122)
         \<or> (224 \<le> (of_char c :: nat) \<and> (of_char c :: nat) \<le> 254 \<and> (of_char c :: nat) \<noteq> 247)
      then [of_char c - 32]
      else if (of_char c :: nat) = 223 then [83, 83]
      else if (of_char c :: nat) = 255 then [376]
      else if (of_char c :: nat) = 181 then [924]
      else [of_char c])"

definition toUpperCase :: "string \<Rightarrow> nat list" where
  "toUpperCase s = concat (map upperUnits s)"

fun startsWith :: "string \<Rightarrow> string \<Rightarrow> bool" where
  "startsWith s [] = True"
| "startsWith [] (p # ps) = False"
| "startsWith (c # cs) (p # ps) = (c = p \<and> startsWith cs ps)"

fun includes_str :: "string \<Rightarrow> string \<Rightarrow> bool" where
  \<comment> \<open>\<open>s.includes(t)\<close>: does \<open>t\<close> occur in \<open>s\<close> at some position\<close>
  "includes_str [] t = (t = [])"
| "includes_str (c # cs) t = (startsWith (c # cs) t \<or> includes_str cs t)"

section \<open>The protocol client: event-log queries\<close>

subsection \<open>Timestamps sent to the device\<close>

definition stripTrailingZ :: "string \<Rightarrow> string" where
  \<comment> \<open>\<open>.replace(/Z$/, "")\<close>\<close>
  "stripTrailingZ s = (if s \<noteq> [] \<and> last s = CHR ''Z'' then butlast s else s)"

fun isOffsetDigits :: "string \<Rightarrow> bool" where
  \<comment> \<open>\<open>\\d{2}:\\d{2}\<close> on the whole of a five-character string\<close>
  "isOffsetDigits [d1, d2, c, d3, d4] =
     (isDigit d1 \<and> isDigit d2 \<and> c = CHR '':'' \<and> isDigit d3 \<and> isDigit d4)"
| "isOffsetDigits _ = False"

definition stripOffsetSuffix :: "char set \<Rightarrow> string \<Rightarrow> string" where
  \<comment> \<open>\<open>.replace(/[signs]\\d{2}:\\d{2}$/, "")\<close>: drop a trailing sign, two digits, a colon
      and two digits, for a sign among \<open>signs\<close>\<close>
  "stripOffsetSuffix signs s =
     (let n = length s in
      if 6 \<le> n \<and> s ! (n - 6) \<in> signs \<and> isOffsetDigits (drop (n - 5) s)
      then take (n - 6) s else s)"

definition stripTz :: "string \<Rightarrow> string" where
  \<comment> \<open>\<open>dt.replace(/Z$/, "").replace(/\\+\\d{2}:\\d{2}$/, "").split(".")[0]\<close>\<close>
  "stripTz dt =
     takeWhile (\<lambda>c. c \<noteq> CHR ''.'') (stripOffsetSuffix {CHR ''+''} (stripTrailingZ dt))"

subsection \<open>Requests, responses and records\<close>

record AcsEventCond =
  searchID :: string
  searchResultPosition :: nat
  maxResults :: int
  major :: int
  minor :: int
  startTime :: string
  endTime :: string

text \<open>
  One entry of the device's \<open>InfoList\<close>. A field the entry lacks is \<open>None\<close>;
  \<open>raw_employeeNo\<close> holds the text \<open>String(raw.employeeNo)\<close>.
\<close>

record rawEvent =
  raw_employeeNoString :: "string option"
  raw_employeeNo :: "string option"
  raw_name :: "string option"
  raw_cardNo :: "string option"
  raw_minor :: "int option"
  raw_minorDesc :: "string option"
  raw_inOutStatus :: "string option"
  raw_time :: "string option"
  raw_doorNo :: "int option"
  raw_serialNo :: "int option"

record AttendanceRecord =
  employeeNo :: "string option"
  name :: "string option"
  cardNo :: "string option"
  eventType :: "int option"
  eventTypeName :: "string option"
  direction :: "string option"
  eventTime :: "string option"
  capturedAt :: string
  doorNo :: "int option"
  deviceSerial :: "int option"
  raw_entry :: rawEvent

record AcsEvent =
  totalMatches :: "int option"
  InfoList :: "rawEvent list option"

datatype error =
    MissingTimeRange
  | RequestFailed string
  | TransportError string
  | HttpStatusError nat
  | ParseError string

text \<open>
  What \<open>this.request\<close> gives back for one call: an exception (\<open>Inl\<close>) or the response
  body, whose \<open>AcsEvent\<close> member may be missing. The device is any function from the
  number of requests already made and the payload sent to such an outcome, so every
  sequence of page responses is one device.
\<close>

type_synonym response = "error + AcsEvent option"
type_synonym device = "nat \<Rightarrow> AcsEventCond \<Rightarrow> response"

record opts =
  opt_startTime :: "string option"
  opt_endTime :: "string option"
  opt_maxResults :: "int option"
  opt_allPages :: "bool option"

definition buildPayload :: "opts \<Rightarrow> nat \<Rightarrow> AcsEventCond" where
  "buildPayload os pos =
     \<lparr> searchID = ''1'',
       searchResultPosition = pos,
       maxResults = (case opt_maxResults os of None \<Rightarrow> 100 | Some n \<Rightarrow> n),
       major = 0,
       minor = 0,
       startTime = stripTz (case opt_startTime os of None \<Rightarrow> [] | Some s \<Rightarrow> s),
       endTime = stripTz (case opt_endTime os of None \<Rightarrow> [] | Some s \<Rightarrow> s) \<rparr>"

definition pageTotal :: "AcsEvent option \<Rightarrow> int" where
  \<comment> \<open>\<open>first?.AcsEvent?.totalMatches ?? 0\<close>\<close>
  "pageTotal r = (case r of None \<Rightarrow> 0
                  | Some a \<Rightarrow> (case totalMatches a of None \<Rightarrow> 0 | Some t \<Rightarrow> t))"

definition pageEntries :: "AcsEvent option \<Rightarrow> rawEvent list" where
  \<comment> \<open>\<open>page?.AcsEvent?.InfoList ?? []\<close>\<close>
  "pageEntries r = (case r of None \<Rightarrow> []
                    | Some a \<Rightarrow> (case InfoList a of None \<Rightarrow> [] | Some l \<Rightarrow> l))"

definition normalise :: "string \<Rightarrow> rawEvent \<Rightarrow> AttendanceRecord" where
  "normalise now raw =
     \<lparr> employeeNo =
         (case raw_employeeNoString raw of
            Some s \<Rightarrow> Some s
          | None \<Rightarrow> Some (case raw_employeeNo raw of None \<Rightarrow> [] | Some s \<Rightarrow> s)),
       name = raw_name raw,
       cardNo = raw_cardNo raw,
       eventType = raw_minor raw,
       eventTypeName = raw_minorDesc raw,
       direction = raw_inOutStatus raw,
       eventTime = raw_time raw,
       capturedAt = now,
       doorNo = raw_doorNo raw,
       deviceSerial = raw_serialNo raw,
       raw_entry = raw \<rparr>"

subsection \<open>Pagination\<close>

text \<open>
  The \<open>while (events.length < total)\<close> loop. The result pairs the payloads sent, in
  order, with the outcome: the exception of a failed request, or the entries held
  when the loop ends. \<open>k\<close> counts the requests made so far.
\<close>

function remainingPages ::
  "device \<Rightarrow> opts \<Rightarrow> int \<Rightarrow> nat \<Rightarrow> rawEvent list \<Rightarrow> AcsEventCond list \<times> (error + rawEvent list)"
where
  "remainingPages dev os tot k events =
     (if int (length events) < tot then
        (let offset = length events;
             req = buildPayload os offset
         in case dev k req of
              Inl e \<Rightarrow> ([req], Inl e)
            | Inr page \<Rightarrow>
                (let batch = pageEntries page
                 in if length batch = 0 then ([req], Inr events)
                    else (case remainingPages dev os tot (Suc k) (events @ batch) of
                            (log, r) \<Rightarrow> (req # log, r))))
      else ([], Inr events))"
  by pat_completeness auto
termination
  by (relation "measure (\<lambda>(dev, os, tot, k, events). nat (tot - int (length events)))")
     auto

definition getAttendanceEvents ::
  "string \<Rightarrow> device \<Rightarrow> opts \<Rightarrow> AcsEventCond list \<times> (error + AttendanceRecord list)"
where
  "getAttendanceEvents now dev os =
     (if opt_startTime os \<in> {None, Some []} \<or> opt_endTime os \<in> {None, Some []}
      then ([], Inl MissingTimeRange)
      else
        (let req0 = buildPayload os 0 in
         case dev 0 req0 of
           Inl e \<Rightarrow> ([req0], Inl e)
         | Inr first \<Rightarrow>
             (let tot = pageTotal first;
                  events = pageEntries first;
                  (log, r) =
                    (if opt_allPages os \<noteq> Some False \<and> tot > int (length events)
                     then remainingPages dev os tot 1 events
                     else ([], Inr events))
              in (req0 # log, map_sum id (map (normalise now)) r))))"

text \<open>
  The entries a response carries (none for a failed request), and the running count
  of entries received in answer to the first \<open>i\<close> requests of a log whose first request
  was the device's request number \<open>k\<close>.
\<close>

definition entriesOf :: "response \<Rightarrow> rawEvent list" where
  "entriesOf r = (case r of Inl e \<Rightarrow> [] | Inr p \<Rightarrow> pageEntries p)"

fun receivedFrom :: "device \<Rightarrow> nat \<Rightarrow> AcsEventCond list \<Rightarrow> nat \<Rightarrow> nat" where
  "receivedFrom dev k log 0 = 0"
| "receivedFrom dev k [] (Suc i) = 0"
| "receivedFrom dev k (req # log) (Suc i) =
     length (entriesOf (dev k req)) + receivedFrom dev (Suc k) log i"

definition declaredTotal :: "device \<Rightarrow> opts \<Rightarrow> int" where
  \<comment> \<open>the total the first page declares (0 when the first request fails)\<close>
  "declaredTotal dev os =
     (case dev 0 (buildPayload os 0) of Inl e \<Rightarrow> 0 | Inr first \<Rightarrow> pageTotal first)"


section \<open>The attendance processor\<close>

subsection \<open>Time helpers\<close>

record deviceTime =
  time_h :: nat
  time_m :: nat
  time_s :: nat
  time_raw :: string

fun firstMatch :: "(string \<Rightarrow> 'a option) \<Rightarrow> string \<Rightarrow> 'a option" where
  \<comment> \<open>the leftmost position of a string at which a pattern matches\<close>
  "firstMatch f [] = f []"
| "firstMatch f (c # cs) = (case f (c # cs) of Some v \<Rightarrow> Some v | None \<Rightarrow> firstMatch f cs)"

definition timeAt :: "string \<Rightarrow> (string \<times> string \<times> string) option" where
  \<comment> \<open>\<open>T(\\d{2}):(\\d{2}):(\\d{2})\<close> at the start of the string\<close>
  "timeAt s =
     (if 9 \<le> length s \<and> s ! 0 = CHR ''T''
         \<and> isDigit (s ! 1) \<and> isDigit (s ! 2) \<and> s ! 3 = CHR '':''
         \<and> isDigit (s ! 4) \<and> isDigit (s ! 5) \<and> s ! 6 = CHR '':''
         \<and> isDigit (s ! 7) \<and> isDigit (s ! 8)
      then Some ([s ! 1, s ! 2], [s ! 4, s ! 5], [s ! 7, s ! 8])
      else None)"

definition digitVal :: "char \<Rightarrow> nat" where
  "digitVal c = of_char c - 48"

fun parseInt2 :: "string \<Rightarrow> nat" where
  \<comment> \<open>\<open>parseInt(dd, 10)\<close> on two decimal digits\<close>
  "parseInt2 [a, b] = 10 * digitVal a + digitVal b"
| "parseInt2 _ = 0"

definition parseDeviceTime :: "string option \<Rightarrow> deviceTime option" where
  "parseDeviceTime isoString =
     (case isoString of
        None \<Rightarrow> None
      | Some str \<Rightarrow>
          if str = [] then None
          else
            (let local = stripOffsetSuffix {CHR ''+'', CHR ''-''} (stripTrailingZ str)
             in case firstMatch timeAt local of
                  None \<Rightarrow> None
                | Some (hh, mm, ss) \<Rightarrow>
                    Some \<lparr> time_h = parseInt2 hh,
                           time_m = parseInt2 mm,
                           time_s = parseInt2 ss,
                           time_raw = hh @ '':'' @ mm @ '':'' @ ss \<rparr>))"

text \<open>
  \<open>TIMEOUT_HOUR\<close> and \<open>TIMEOUT_MINUTE\<close> are read from the environment when the module
  loads; they are parameters here.
\<close>

definition isTimeOut :: "int \<Rightarrow> int \<Rightarrow> deviceTime \<Rightarrow> bool" where
  "isTimeOut TIMEOUT_HOUR TIMEOUT_MINUTE t =
     (if int (time_h t) > TIMEOUT_HOUR then True
      else if int (time_h t) = TIMEOUT_HOUR \<and> int (time_m t) \<ge> TIMEOUT_MINUTE then True
      else False)"

definition compareTimeStrings :: "string \<Rightarrow> string \<Rightarrow> int" where
  \<comment> \<open>\<open>a.localeCompare(b)\<close>, as the lexicographic order of the code units: the two agree
      on strings of digits with colons at the same places, the only ones compared\<close>
  "compareTimeStrings a b = (if a < b then -1 else if a = b then 0 else 1)"

subsection \<open>Sorting with a comparator\<close>

text \<open>\<open>Array.prototype.sort\<close> is stable: an insertion sort that keeps equal elements in order.\<close>

fun insertBy :: "('a \<Rightarrow> 'a \<Rightarrow> int) \<Rightarrow> 'a \<Rightarrow> 'a list \<Rightarrow> 'a list" where
  "insertBy cmp x [] = [x]"
| "insertBy cmp x (y # ys) =
     (if cmp x y \<le> 0 then x # y # ys else y # insertBy cmp x ys)"

definition sortBy :: "('a \<Rightarrow> 'a \<Rightarrow> int) \<Rightarrow> 'a list \<Rightarrow> 'a list" where
  "sortBy cmp xs = foldr (insertBy cmp) xs []"

subsection \<open>Processing raw attendance records\<close>

record ProcessedAttendance =
  adm_no :: string
  time_in :: string
  time_out :: "string option"

definition idOf :: "AttendanceRecord \<Rightarrow> string" where
  \<comment> \<open>\<open>(r.employeeNo ?? "").trim()\<close>\<close>
  "idOf r = trim (case employeeNo r of None \<Rightarrow> [] | Some e \<Rightarrow> e)"

definition validId :: "AttendanceRecord \<Rightarrow> bool" where
  "validId r = (let sid = idOf r in sid \<noteq> [] \<and> sid \<noteq> ''0'')"

text \<open>
  The \<open>Map\<close> from identifier to events, in insertion order: a new key goes to the end,
  an event is pushed to the end of its key's list.
\<close>

fun pushTo :: "string \<Rightarrow> 'a \<Rightarrow> (string \<times> 'a list) list \<Rightarrow> (string \<times> 'a list) list" where
  "pushTo sid r [] = [(sid, [r])]"
| "pushTo sid r ((k, es) # rest) =
     (if k = sid then (k, es @ [r]) # rest else (k, es) # pushTo sid r rest)"

definition groupByStudent :: "AttendanceRecord list \<Rightarrow> (string \<times> AttendanceRecord list) list" where
  "groupByStudent valid = foldl (\<lambda>byStudent r. pushTo (idOf r) r byStudent) [] valid"

definition sortedTimes :: "AttendanceRecord list \<Rightarrow> (AttendanceRecord \<times> deviceTime) list" where
  \<comment> \<open>the \<open>map\<close>, \<open>filter\<close>, \<open>sort\<close> chain of step 3\<close>
  "sortedTimes events =
     sortBy (\<lambda>a b. compareTimeStrings (time_raw (snd a)) (time_raw (snd b)))
       (List.map_filter (\<lambda>e. map_option (Pair e) (parseDeviceTime (eventTime e))) events)"

definition collapse ::
  "int \<Rightarrow> int \<Rightarrow> string \<times> AttendanceRecord list \<Rightarrow> ProcessedAttendance option" where
  \<comment> \<open>one pass of the loop over \<open>byStudent\<close>; \<open>None\<close> is \<open>continue\<close>\<close>
  "collapse TIMEOUT_HOUR TIMEOUT_MINUTE entry =
     (case entry of (adm, events) \<Rightarrow>
        (let sorted = sortedTimes events in
         if length sorted = 0 then None
         else
           (let timeIn = time_raw (snd (hd sorted));
                postThreshold = filter (\<lambda>x. isTimeOut TIMEOUT_HOUR TIMEOUT_MINUTE (snd x)) sorted;
                timeOut = (if length postThreshold > 0
                           then Some (time_raw (snd (last postThreshold)))
                           else None)
            in Some \<lparr> adm_no = adm, time_in = timeIn, time_out = timeOut \<rparr>)))"

definition processAttendance :: "int \<Rightarrow> int \<Rightarrow> AttendanceRecord list \<Rightarrow> ProcessedAttendance list" where
  "processAttendance TIMEOUT_HOUR TIMEOUT_MINUTE records =
     (let valid = filter validId records;
          byStudent = groupByStudent valid
      in List.map_filter (collapse TIMEOUT_HOUR TIMEOUT_MINUTE) byStudent)"

subsection \<open>Notions used to state the aggregation properties\<close>

text \<open>
  The parseable event times of the events retained for one person; the chronological
  order on parsed times; and the shape of what \<open>parseDeviceTime\<close> returns (two-digit
  fields, with the text they were read from).
\<close>

definition personTimes :: "AttendanceRecord list \<Rightarrow> string \<Rightarrow> deviceTime list" where
  "personTimes records p =
     List.map_filter (\<lambda>e. parseDeviceTime (eventTime e))
       (filter (\<lambda>e. validId e \<and> idOf e = p) records)"

definition chronLe :: "deviceTime \<Rightarrow> deviceTime \<Rightarrow> bool" where
  "chronLe a b \<longleftrightarrow>
     time_h a < time_h b
     \<or> (time_h a = time_h b
         \<and> (time_m a < time_m b \<or> (time_m a = time_m b \<and> time_s a \<le> time_s b)))"

definition atOrAfter :: "int \<Rightarrow> int \<Rightarrow> deviceTime \<Rightarrow> bool" where
  \<comment> \<open>hour strictly greater than the threshold hour, or equal hour and minute at least
      the threshold minute\<close>
  "atOrAfter hour minute t \<longleftrightarrow>
     hour < int (time_h t) \<or> (int (time_h t) = hour \<and> minute \<le> int (time_m t))"

definition wellFormed :: "deviceTime \<Rightarrow> bool" where
  "wellFormed t \<longleftrightarrow>
     (\<exists>h1 h2 m1 m2 s1 s2.
        isDigit h1 \<and> isDigit h2 \<and> isDigit m1 \<and> isDigit m2 \<and> isDigit s1 \<and> isDigit s2
        \<and> time_raw t = [h1, h2, CHR '':'', m1, m2, CHR '':'', s1, s2]
        \<and> time_h t = 10 * digitVal h1 + digitVal h2
        \<and> time_m t = 10 * digitVal m1 + digitVal m2
        \<and> time_s t = 10 * digitVal s1 + digitVal s2)"

section \<open>Cloud sync\<close>

text \<open>
  What one \<open>axios.post\<close> does: it resolves with a status and a body, or rejects with an
  error that carries the response (status and body) when the server answered and
  nothing when it did not. The service is any function from the attempt number and
  the payload to such an outcome.
\<close>

datatype 'b outcome =
    Resolved int "'b option"
  | Rejected "(int \<times> 'b option) option"

record cloudConfig =
  schoolCode :: string
  retryAttempts :: int
  retryDelayMs :: int

record syncPayload =
  school_code :: string
  date :: string
  attendance :: "ProcessedAttendance list"

record 'b syncResult =
  success :: bool
  sent :: nat
  response :: "'b option"

datatype effect = Post nat | Sleep int

definition isClientError :: "(int \<times> 'b option) option \<Rightarrow> bool" where
  \<comment> \<open>\<open>err.response?.status >= 400 && err.response?.status < 500\<close>\<close>
  "isClientError resp = (case resp of None \<Rightarrow> False | Some (status, b) \<Rightarrow> status \<ge> 400 \<and> status < 500)"

definition failureResult :: "(int \<times> 'b option) option option \<Rightarrow> 'b syncResult" where
  \<comment> \<open>\<open>{ success: false, sent: 0, response: lastError?.response?.data ?? null }\<close>\<close>
  "failureResult lastError =
     \<lparr> success = False, sent = 0,
       response = (case lastError of
                     None \<Rightarrow> None
                   | Some None \<Rightarrow> None
                   | Some (Some (status, b)) \<Rightarrow> b) \<rparr>"

text \<open>
  The retry loop, from attempt number \<open>attempt\<close> on, with the last error caught so far.
  It returns the posts and sleeps made, in order, and the result of \<open>syncToCloud\<close>.
\<close>

function retryLoop ::
  "cloudConfig \<Rightarrow> (nat \<Rightarrow> syncPayload \<Rightarrow> 'b outcome) \<Rightarrow> syncPayload \<Rightarrow> nat
     \<Rightarrow> (int \<times> 'b option) option option \<Rightarrow> effect list \<times> 'b syncResult"
where
  "retryLoop cfg cloud payload attempt lastError =
     (if int attempt \<le> retryAttempts cfg then
        (case cloud attempt payload of
           Resolved status body \<Rightarrow>
             ([Post attempt],
              \<lparr> success = True, sent = length (attendance payload), response = body \<rparr>)
         | Rejected resp \<Rightarrow>
             if isClientError resp then ([Post attempt], failureResult (Some resp))
             else if int attempt < retryAttempts cfg then
               (case retryLoop cfg cloud payload (Suc attempt) (Some resp) of
                  (effects, r) \<Rightarrow> (Post attempt # Sleep (retryDelayMs cfg) # effects, r))
             else
               (case retryLoop cfg cloud payload (Suc attempt) (Some resp) of
                  (effects, r) \<Rightarrow> (Post attempt # effects, r)))
      else ([], failureResult lastError))"
  by pat_completeness auto
termination
  by (relation "measure (\<lambda>(cfg, cloud, payload, attempt, lastError).
                  nat (retryAttempts cfg + 1 - int attempt))")
     auto

definition syncToCloud ::
  "cloudConfig \<Rightarrow> (nat \<Rightarrow> syncPayload \<Rightarrow> 'b outcome) \<Rightarrow> ProcessedAttendance list \<Rightarrow> string
     \<Rightarrow> effect list \<times> 'b syncResult"
where
  "syncToCloud cfg cloud att d =
     (if length att = 0 then ([], \<lparr> success = True, sent = 0, response = None \<rparr>)
      else retryLoop cfg cloud
             \<lparr> school_code = schoolCode cfg, date = d, attendance = att \<rparr> 1 None)"


subsection \<open>Notions used to state the retry policy\<close>

text \<open>
  \<open>schedule d a k\<close> is what \<open>k\<close> attempts numbered from \<open>a\<close> look like: the posts in order,
  with one sleep of \<open>d\<close> milliseconds between each two and none after the last. An
  outcome is \<open>retryable\<close> when the request was rejected without a response (a network
  error) or with a status outside 400..499. \<open>finalResult\<close> is the result \<open>syncToCloud\<close>
  gives when a given outcome is the last one.
\<close>

fun schedule :: "int \<Rightarrow> nat \<Rightarrow> nat \<Rightarrow> effect list" where
  "schedule d a 0 = []"
| "schedule d a (Suc 0) = [Post a]"
| "schedule d a (Suc (Suc k)) = Post a # Sleep d # schedule d (Suc a) (Suc k)"

definition retryable :: "'b outcome \<Rightarrow> bool" where
  "retryable oc =
     (case oc of
        Resolved status body \<Rightarrow> False
      | Rejected None \<Rightarrow> True
      | Rejected (Some (status, body)) \<Rightarrow> \<not> (400 \<le> status \<and> status < 500))"

definition finalResult :: "ProcessedAttendance list \<Rightarrow> 'b outcome \<Rightarrow> 'b syncResult" where
  "finalResult att oc =
     (case oc of
        Resolved status body \<Rightarrow> \<lparr> success = True, sent = length att, response = body \<rparr>
      | Rejected None \<Rightarrow> \<lparr> success = False, sent = 0, response = None \<rparr>
      | Rejected (Some (status, body)) \<Rightarrow> \<lparr> success = False, sent = 0, response = body \<rparr>)"

section \<open>Digest authentication\<close>

subsection \<open>The hash\<close>

text \<open>
  \<open>crypto.createHash("md5").update(s).digest("hex")\<close> is Node's MD5 (RFC 1321) of the
  UTF-8 bytes of \<open>s\<close>, in lower-case hexadecimal. \<open>buildDigestAuth\<close> below takes the hash
  as a parameter, a function of the code units of \<open>s\<close>; \<open>md5_hex\<close> is the function itself,
  on 32-bit words.
\<close>

definition md5_K :: "32 word list" where
  "md5_K =
     [0xd76aa478, 0xe8c7b756, 0x242070db, 0xc1bdceee,
      0xf57c0faf, 0x4787c62a, 0xa8304613, 0xfd469501,
      0x698098d8, 0x8b44f7af, 0xffff5bb1, 0x895cd7be,
      0x6b901122, 0xfd987193, 0xa679438e, 0x49b40821,
      0xf61e2562, 0xc040b340, 0x265e5a51, 0xe9b6c7aa,
      0xd62f105d, 0x02441453, 0xd8a1e681, 0xe7d3fbc8,
      0x21e1cde6, 0xc33707d6, 0xf4d50d87, 0x455a14ed,
      0xa9e3e905, 0xfcefa3f8, 0x676f02d9, 0x8d2a4c8a,
      0xfffa3942, 0x8771f681, 0x6d9d6122, 0xfde5380c,
      0xa4beea44, 0x4bdecfa9, 0xf6bb4b60, 0xbebfbc70,
      0x289b7ec6, 0xeaa127fa, 0xd4ef3085, 0x04881d05,
      0xd9d4d039, 0xe6db99e5, 0x1fa27cf8, 0xc4ac5665,
      0xf4292244, 0x432aff97, 0xab9423a7, 0xfc93a039,
      0x655b59c3, 0x8f0ccc92, 0xffeff47d, 0x85845dd1,
      0x6fa87e4f, 0xfe2ce6e0, 0xa3014314, 0x4e0811a1,
      0xf7537e82, 0xbd3af235, 0x2ad7d2bb, 0xeb86d391]"

definition md5_shift :: "nat list" where
  "md5_shift =
     [7, 12, 17, 22, 7, 12, 17, 22, 7, 12, 17, 22, 7, 12, 17, 22,
      5, 9, 14, 20, 5, 9, 14, 20, 5, 9, 14, 20, 5, 9, 14, 20,
      4, 11, 16, 23, 4, 11, 16, 23, 4, 11, 16, 23, 4, 11, 16, 23,
      6, 10, 15, 21, 6, 10, 15, 21, 6, 10, 15, 21, 6, 10, 15, 21]"

definition rotl32 :: "32 word \<Rightarrow> nat \<Rightarrow> 32 word" where
  "rotl32 x n = push_bit n x OR drop_bit (32 - n) x"

type_synonym md5_state = "32 word \<times> 32 word \<times> 32 word \<times> 32 word"

definition md5_step :: "32 word list \<Rightarrow> md5_state \<Rightarrow> nat \<Rightarrow> md5_state" where
  "md5_step M st i =
     (case st of (A, B, C, D) \<Rightarrow>
        (let (F, g) =
               (if i < 16 then ((B AND C) OR (NOT B AND D), i)
                else if i < 32 then ((D AND B) OR (NOT D AND C), (5 * i + 1) mod 16)
                else if i < 48 then (B XOR C XOR D, (3 * i + 5) mod 16)
                else (C XOR (B OR NOT D), (7 * i) mod 16));
             F' = F + A + md5_K ! i + M ! g
         in (D, B + rotl32 F' (md5_shift ! i), B, C)))"

fun wordsOf :: "nat list \<Rightarrow> 32 word list" where
  "wordsOf (b0 # b1 # b2 # b3 # rest) =
     of_nat (b0 + 256 * b1 + 65536 * b2 + 16777216 * b3) # wordsOf rest"
| "wordsOf _ = []"

definition md5_block :: "md5_state \<Rightarrow> nat list \<Rightarrow> md5_state" where
  "md5_block st bytes =
     (case st of (a0, b0, c0, d0) \<Rightarrow>
        (case foldl (md5_step (wordsOf bytes)) st [0..<64] of
           (A, B, C, D) \<Rightarrow> (a0 + A, b0 + B, c0 + C, d0 + D)))"

function md5_blocks :: "md5_state \<Rightarrow> nat list \<Rightarrow> md5_state" where
  "md5_blocks st bytes =
     (if length bytes < 64 then st
      else md5_blocks (md5_block st (take 64 bytes)) (drop 64 bytes))"
  by pat_completeness auto
termination
  by (relation "measure (\<lambda>(st, bytes). length bytes)") auto

definition le_bytes :: "nat \<Rightarrow> nat \<Rightarrow> nat list" where
  "le_bytes n v = map (\<lambda>i. (v div 256 ^ i) mod 256) [0..<n]"

definition md5_pad :: "nat list \<Rightarrow> nat list" where
  "md5_pad bytes =
     bytes @ [128] @ replicate ((119 - length bytes mod 64) mod 64) 0
       @ le_bytes 8 (8 * length bytes)"

definition hexDigit :: "nat \<Rightarrow> char" where
  "hexDigit n = ''0123456789abcdef'' ! n"

definition hexByte :: "nat \<Rightarrow> string" where
  "hexByte b = [hexDigit (b div 16), hexDigit (b mod 16)]"

definition utf8 :: "nat \<Rightarrow> nat list" where
  \<comment> \<open>the UTF-8 bytes of a code unit of the basic plane; the strings hashed here hold no
      surrogate, their code units being below 0x800\<close>
  "utf8 u =
     (if u < 128 then [u]
      else if u < 2048 then [192 + u div 64, 128 + u mod 64]
      else [224 + u div 4096, 128 + (u div 64) mod 64, 128 + u mod 64])"

definition md5_hex :: "nat list \<Rightarrow> string" where
  "md5_hex units =
     (case md5_blocks (0x67452301, 0xefcdab89, 0x98badcfe, 0x10325476)
             (md5_pad (concat (map utf8 units))) of
        (a, b, c, d) \<Rightarrow> concat (map hexByte (concat (map (\<lambda>w. le_bytes 4 (unat w)) [a, b, c, d]))))"

subsection \<open>Challenge parameters\<close>

definition dq :: char where
  \<comment> \<open>the double quote\<close>
  "dq = CHR 0x22"

definition quotedAt :: "string \<Rightarrow> string \<Rightarrow> string option" where
  \<comment> \<open>\<open>key="([^"]+)"\<close> at the start of the string\<close>
  "quotedAt key s =
     (if startsWith s (key @ [CHR ''='', dq]) then
        (let rest = drop (length key + 2) s;
             v = takeWhile (\<lambda>c. c \<noteq> dq) rest
         in if v \<noteq> [] \<and> length v < length rest then Some v else None)
      else None)"

definition unquotedAt :: "string \<Rightarrow> string \<Rightarrow> string option" where
  \<comment> \<open>\<open>key=([^,\\s]+)\<close> at the start of the string\<close>
  "unquotedAt key s =
     (if startsWith s (key @ ''='') then
        (let v = takeWhile (\<lambda>c. c \<noteq> CHR '','' \<and> \<not> isSpace c) (drop (length key + 1) s)
         in if v \<noteq> [] then Some v else None)
      else None)"

definition digestParam :: "string \<Rightarrow> string \<Rightarrow> string" where
  "digestParam header key =
     (case firstMatch (quotedAt key) header of
        Some quoted \<Rightarrow> quoted
      | None \<Rightarrow>
          (case firstMatch (unquotedAt key) header of
             Some unquoted \<Rightarrow> unquoted
           | None \<Rightarrow> []))"

subsection \<open>The Authorization header\<close>

text \<open>
  The two copies of \<open>buildDigestAuth\<close> (protocol client and device discovery) have the
  same body, but for the method in HA2: the client upper-cases it, discovery uses it as
  given. \<open>digestResponse\<close> is the body up to the \<open>return\<close>, giving \<open>response\<close> and
  \<open>extras\<close>, and \<open>digestAuthHeader\<close> is the whole of it; both take the code units that
  stand for the method in HA2. \<open>cnonce\<close> stands for
  \<open>crypto.randomBytes(8).toString("hex")\<close>.
\<close>

definition digestHA1 ::
  "(nat list \<Rightarrow> string) \<Rightarrow> string \<Rightarrow> string \<Rightarrow> string \<Rightarrow> string \<Rightarrow> string \<Rightarrow> string" where
  "digestHA1 md5 algo username realm password nonce =
     (if toUpperCase algo = codeUnits ''MD5-SESS''
      then md5 (codeUnits (md5 (codeUnits (username @ '':'' @ realm @ '':'' @ password))
                             @ '':'' @ nonce @ '':''))
      else md5 (codeUnits (username @ '':'' @ realm @ '':'' @ password)))"

definition digestAlgo :: "string \<Rightarrow> string" where
  \<comment> \<open>\<open>digestParam(wwwAuthHeader, "algorithm") || "MD5"\<close>\<close>
  "digestAlgo wwwAuthHeader =
     (let a = digestParam wwwAuthHeader ''algorithm'' in if a = [] then ''MD5'' else a)"

definition digestResponse ::
  "(nat list \<Rightarrow> string) \<Rightarrow> string \<Rightarrow> nat list \<Rightarrow> string \<Rightarrow> string \<Rightarrow> string \<Rightarrow> string
     \<Rightarrow> string \<times> string" where
  "digestResponse md5 cnonce method uri username password wwwAuthHeader =
     (let realm = digestParam wwwAuthHeader ''realm'';
          nonce = digestParam wwwAuthHeader ''nonce'';
          qop = digestParam wwwAuthHeader ''qop'';
          algo = digestAlgo wwwAuthHeader;
          ha1 = digestHA1 md5 algo username realm password nonce;
          ha2 = md5 (method @ codeUnits ('':'' @ uri))
      in if qop = ''auth'' \<or> qop = ''auth-int'' then
           (let nc = ''00000001'' in
            (md5 (codeUnits (ha1 @ '':'' @ nonce @ '':'' @ nc @ '':'' @ cnonce @ '':'' @ qop
                             @ '':'' @ ha2)),
             '', qop='' @ qop @ '', nc='' @ nc @ '', cnonce='' @ [dq] @ cnonce @ [dq]))
         else (md5 (codeUnits (ha1 @ '':'' @ nonce @ '':'' @ ha2)), []))"

definition digestAuthHeader ::
  "(nat list \<Rightarrow> string) \<Rightarrow> string \<Rightarrow> nat list \<Rightarrow> string \<Rightarrow> string \<Rightarrow> string \<Rightarrow> string
     \<Rightarrow> string" where
  "digestAuthHeader md5 cnonce method uri username password wwwAuthHeader =
     (let realm = digestParam wwwAuthHeader ''realm'';
          nonce = digestParam wwwAuthHeader ''nonce'';
          opaque = digestParam wwwAuthHeader ''opaque'';
          algo = digestAlgo wwwAuthHeader;
          (resp, extras) = digestResponse md5 cnonce method uri username password wwwAuthHeader
      in ''Digest username='' @ [dq] @ username @ [dq] @ '', realm='' @ [dq] @ realm @ [dq]
           @ '', nonce='' @ [dq] @ nonce @ [dq] @ '', ''
           @ ''uri='' @ [dq] @ uri @ [dq] @ '', algorithm='' @ algo
           @ '', response='' @ [dq] @ resp @ [dq]
           @ (if opaque \<noteq> [] then '', opaque='' @ [dq] @ opaque @ [dq] else [])
           @ extras)"

definition buildDigestAuth ::
  "(nat list \<Rightarrow> string) \<Rightarrow> string \<Rightarrow> string \<Rightarrow> string \<Rightarrow> string \<Rightarrow> string \<Rightarrow> string
     \<Rightarrow> string" where
  \<comment> \<open>the protocol client's: \<open>ha2 = md5(`${method.toUpperCase()}:${uri}`)\<close>\<close>
  "buildDigestAuth md5 cnonce method uri username password wwwAuthHeader =
     digestAuthHeader md5 cnonce (toUpperCase method) uri username password wwwAuthHeader"

definition buildDigestAuth_discovery ::
  "(nat list \<Rightarrow> string) \<Rightarrow> string \<Rightarrow> string \<Rightarrow> string \<Rightarrow> string \<Rightarrow> string \<Rightarrow> string
     \<Rightarrow> string" where
  \<comment> \<open>device discovery's: \<open>ha2 = md5(`${method}:${uri}`)\<close>\<close>
  "buildDigestAuth_discovery md5 cnonce method uri username password wwwAuth =
     digestAuthHeader md5 cnonce (codeUnits method) uri username password wwwAuth"

subsection \<open>Notions used to state the response computation\<close>

text \<open>
  \<open>parseChallenge\<close> collects the five values \<open>buildDigestAuth\<close> reads from the challenge
  header. The response digest is then written out from them: \<open>claimedResponse\<close> takes
  the quality-of-protection branch whenever a \<open>qop\<close> value is present, \<open>expectedResponse\<close>
  takes it when the value is \<open>auth\<close> or \<open>auth-int\<close>. Both take the code units that stand
  for the method. \<open>authorizationHeader\<close> is the layout of the header around a response.
\<close>

record challenge =
  ch_realm :: string
  ch_nonce :: string
  ch_qop :: string
  ch_opaque :: string
  ch_algo :: string

definition parseChallenge :: "string \<Rightarrow> challenge" where
  "parseChallenge wwwAuth =
     \<lparr> ch_realm = digestParam wwwAuth ''realm'',
       ch_nonce = digestParam wwwAuth ''nonce'',
       ch_qop = digestParam wwwAuth ''qop'',
       ch_opaque = digestParam wwwAuth ''opaque'',
       ch_algo = digestAlgo wwwAuth \<rparr>"

definition specHA1 :: "(nat list \<Rightarrow> string) \<Rightarrow> string \<Rightarrow> string \<Rightarrow> challenge \<Rightarrow> string" where
  "specHA1 md5 username password ch =
     (let plain = md5 (codeUnits (username @ '':'' @ ch_realm ch @ '':'' @ password))
      in if toUpperCase (ch_algo ch) = codeUnits ''MD5-SESS''
         then md5 (codeUnits (plain @ '':'' @ ch_nonce ch @ '':''))
         else plain)"

definition specHA2 :: "(nat list \<Rightarrow> string) \<Rightarrow> nat list \<Rightarrow> string \<Rightarrow> string" where
  "specHA2 md5 method uri = md5 (method @ codeUnits ('':'' @ uri))"

definition claimedResponse ::
  "(nat list \<Rightarrow> string) \<Rightarrow> string \<Rightarrow> nat list \<Rightarrow> string \<Rightarrow> string \<Rightarrow> string \<Rightarrow> challenge
     \<Rightarrow> string" where
  "claimedResponse md5 cnonce method uri username password ch =
     (let ha1 = specHA1 md5 username password ch;
          ha2 = specHA2 md5 method uri
      in if ch_qop ch \<noteq> []
         then md5 (codeUnits (ha1 @ '':'' @ ch_nonce ch @ '':'' @ ''00000001'' @ '':'' @ cnonce
                              @ '':'' @ ch_qop ch @ '':'' @ ha2))
         else md5 (codeUnits (ha1 @ '':'' @ ch_nonce ch @ '':'' @ ha2)))"

definition expectedResponse ::
  "(nat list \<Rightarrow> string) \<Rightarrow> string \<Rightarrow> nat list \<Rightarrow> string \<Rightarrow> string \<Rightarrow> string \<Rightarrow> challenge
     \<Rightarrow> string" where
  "expectedResponse md5 cnonce method uri username password ch =
     (let ha1 = specHA1 md5 username password ch;
          ha2 = specHA2 md5 method uri
      in if ch_qop ch = ''auth'' \<or> ch_qop ch = ''auth-int''
         then md5 (codeUnits (ha1 @ '':'' @ ch_nonce ch @ '':'' @ ''00000001'' @ '':'' @ cnonce
                              @ '':'' @ ch_qop ch @ '':'' @ ha2))
         else md5 (codeUnits (ha1 @ '':'' @ ch_nonce ch @ '':'' @ ha2)))"

definition quoted :: "string \<Rightarrow> string" where
  \<comment> \<open>a value between double quotes\<close>
  "quoted v = [dq] @ v @ [dq]"

definition authorizationHeader ::
  "string \<Rightarrow> string \<Rightarrow> challenge \<Rightarrow> string \<Rightarrow> string \<Rightarrow> string" where
  "authorizationHeader username uri ch cnonce resp =
     ''Digest username='' @ quoted username @ '', realm='' @ quoted (ch_realm ch)
       @ '', nonce='' @ quoted (ch_nonce ch) @ '', uri='' @ quoted uri
       @ '', algorithm='' @ ch_algo ch @ '', response='' @ quoted resp
       @ (if ch_opaque ch = [] then [] else '', opaque='' @ quoted (ch_opaque ch))
       @ (if ch_qop ch = ''auth'' \<or> ch_qop ch = ''auth-int''
          then '', qop='' @ ch_qop ch @ '', nc=00000001, cnonce='' @ quoted cnonce
          else [])"


section \<open>Device discovery\<close>

subsection \<open>Device identities\<close>

text \<open>
  The payload kept in \<open>_raw\<close>: the XML text itself, or an object, held as the text
  \<open>JSON.stringify\<close> gives for it. \<open>None\<close> is a missing or falsy \<open>_raw\<close> that is not a string.
\<close>

datatype rawPayload = RawText string | RawObject string

record deviceInfo =
  deviceName :: "string option"
  model :: "string option"
  serialNumber :: "string option"
  firmwareVersion :: "string option"
  macAddress :: "string option"
  raw_payload :: "rawPayload option"

definition startsWithIgnoreCase :: "string \<Rightarrow> string \<Rightarrow> bool" where
  \<comment> \<open>a literal of a pattern with the \<open>i\<close> flag, at the start of the string\<close>
  "startsWithIgnoreCase s p = (toLowerCase (take (length p) s) = toLowerCase p)"

definition xmlFieldAt :: "string \<Rightarrow> string \<Rightarrow> string option" where
  \<comment> \<open>\<open><tag[^>]*>([^<]+)</tag>\<close>, ignoring case, at the start of the string\<close>
  "xmlFieldAt tag s =
     (if startsWithIgnoreCase s (''<'' @ tag) then
        (let rest = dropWhile (\<lambda>c. c \<noteq> CHR ''>'') (drop (length tag + 1) s)
         in case rest of
              [] \<Rightarrow> None
            | gt # rest2 \<Rightarrow>
                (let content = takeWhile (\<lambda>c. c \<noteq> CHR ''<'') rest2;
                     rest3 = drop (length content) rest2
                 in if content \<noteq> [] \<and> startsWithIgnoreCase rest3 (''</'' @ tag @ ''>'')
                    then Some content else None))
      else None)"

definition xmlField :: "string \<Rightarrow> string \<Rightarrow> string option" where
  "xmlField xml tag = map_option trim (firstMatch (xmlFieldAt tag) xml)"

text \<open>
  \<open>normaliseDeviceInfo\<close> on a text body (\<open>responseType: "text"\<close>). The two parsers are
  parameters: \<open>jsonInfo\<close> is \<open>JSON.parse\<close> followed by the reading of the fields, and may
  raise; \<open>parseXml\<close> is the optional xml2js parser followed by the same, absent when
  the package is not installed.
\<close>

definition normaliseDeviceInfo ::
  "(string \<Rightarrow> error + deviceInfo) \<Rightarrow> (string \<Rightarrow> error + deviceInfo) option
     \<Rightarrow> string \<Rightarrow> string option \<Rightarrow> error + deviceInfo option" where
  "normaliseDeviceInfo jsonInfo parseXml body contentType =
     (let ct = toLowerCase (case contentType of None \<Rightarrow> [] | Some c \<Rightarrow> c) in
      if includes_str ct ''json'' then
        (case jsonInfo body of Inl e \<Rightarrow> Inl e | Inr info \<Rightarrow> Inr (Some info))
      else
        (let xmlStr = body in
         if \<not> startsWith (trim xmlStr) ''<'' then Inr None
         else
           (let parsed =
                  (case parseXml of
                     None \<Rightarrow> None
                   | Some px \<Rightarrow> (case px xmlStr of Inl e \<Rightarrow> None | Inr info \<Rightarrow> Some info));
                parsed2 =
                  (case parsed of
                     Some info \<Rightarrow> info
                   | None \<Rightarrow>
                       \<lparr> deviceName = xmlField xmlStr ''deviceName'',
                         model = xmlField xmlStr ''model'',
                         serialNumber = xmlField xmlStr ''serialNumber'',
                         firmwareVersion = xmlField xmlStr ''firmwareVersion'',
                         macAddress = xmlField xmlStr ''macAddress'',
                         raw_payload = Some (RawText xmlStr) \<rparr>);
                hasData =
                  (deviceName parsed2 \<noteq> None \<or> model parsed2 \<noteq> None
                   \<or> serialNumber parsed2 \<noteq> None \<or> firmwareVersion parsed2 \<noteq> None
                   \<or> macAddress parsed2 \<noteq> None)
            in if hasData then Inr (Some parsed2) else Inr None)))"

subsection \<open>Probing one address\<close>

record httpRequest =
  req_path :: string
  req_accept :: string
  req_authorization :: "string option"

record httpResponse =
  resp_status :: nat
  resp_wwwAuthenticate :: "string option"
  resp_contentType :: "string option"
  resp_data :: string

text \<open>
  The network is any function from the number of requests already made and the
  request to an exception (time-out, refused connection, TLS failure) or a response.
  \<open>httpGet\<close> is \<open>http.get\<close> with \<open>validateStatus: (s) => s < 500\<close>: a status of 500 or
  more raises.
\<close>

type_synonym network = "nat \<Rightarrow> httpRequest \<Rightarrow> error + httpResponse"

definition httpGet :: "network \<Rightarrow> nat \<Rightarrow> httpRequest \<Rightarrow> error + httpResponse" where
  "httpGet net n req =
     (case net n req of
        Inl e \<Rightarrow> Inl e
      | Inr resp \<Rightarrow> if resp_status resp < 500 then Inr resp else Inl (HttpStatusError (resp_status resp)))"

record probeEnv =
  env_net :: network
  env_md5 :: "nat list \<Rightarrow> string"
  env_cnonce :: "nat \<Rightarrow> string"
  env_jsonInfo :: "string \<Rightarrow> error + deviceInfo"
  env_parseXml :: "(string \<Rightarrow> error + deviceInfo) option"

definition ISAPI_DEVICE_INFO :: string where
  "ISAPI_DEVICE_INFO = ''/ISAPI/System/deviceInfo''"

text \<open>
  The body of the \<open>try\<close> block for one attempt, from request number \<open>n\<close> on. It gives the
  number of requests made and \<open>Inl\<close> for an exception, \<open>Inr None\<close> for \<open>continue\<close> (or a
  falsy \<open>info\<close>), \<open>Inr (Some info)\<close> for \<open>return info\<close>.
\<close>

definition probeAttempt ::
  "probeEnv \<Rightarrow> string \<Rightarrow> string \<Rightarrow> nat \<Rightarrow> string \<times> string \<Rightarrow> nat \<times> (error + deviceInfo option)" where
  "probeAttempt env username password n attempt =
     (case attempt of (reqPath, accept) \<Rightarrow>
        (case httpGet (env_net env) n
                \<lparr> req_path = reqPath, req_accept = accept, req_authorization = None \<rparr> of
           Inl e \<Rightarrow> (Suc n, Inl e)
         | Inr probe \<Rightarrow>
             if resp_status probe \<noteq> 401 then (Suc n, Inr None)
             else
               (case resp_wwwAuthenticate probe of
                  None \<Rightarrow> (Suc n, Inr None)
                | Some wwwAuth \<Rightarrow>
                    if wwwAuth = [] then (Suc n, Inr None)
                    else
                      (let authHeader =
                             buildDigestAuth_discovery (env_md5 env) (env_cnonce env n)
                               ''GET'' reqPath username password wwwAuth
                       in case httpGet (env_net env) (Suc n)
                                 \<lparr> req_path = reqPath, req_accept = accept,
                                   req_authorization = Some authHeader \<rparr> of
                            Inl e \<Rightarrow> (n + 2, Inl e)
                          | Inr authed \<Rightarrow>
                              if resp_status authed \<noteq> 200 then (n + 2, Inr None)
                              else (n + 2,
                                    normaliseDeviceInfo (env_jsonInfo env) (env_parseXml env)
                                      (resp_data authed) (resp_contentType authed))))))"

fun probeAttempts ::
  "probeEnv \<Rightarrow> string \<Rightarrow> string \<Rightarrow> nat \<Rightarrow> (string \<times> string) list \<Rightarrow> error + deviceInfo option" where
  \<comment> \<open>the \<open>for\<close> loop with its \<open>try\<close>/\<open>catch\<close>: an exception is swallowed and the next
      attempt made; after the last attempt, \<open>return null\<close>\<close>
  "probeAttempts env username password n [] = Inr None"
| "probeAttempts env username password n (attempt # rest) =
     (case probeAttempt env username password n attempt of
        (n2, Inl e) \<Rightarrow> probeAttempts env username password n2 rest
      | (n2, Inr None) \<Rightarrow> probeAttempts env username password n2 rest
      | (n2, Inr (Some info)) \<Rightarrow> Inr (Some info))"

definition probeDevice :: "probeEnv \<Rightarrow> string \<Rightarrow> nat \<Rightarrow> string \<Rightarrow> string \<Rightarrow> bool \<Rightarrow> error + deviceInfo option" where
  \<comment> \<open>\<open>ip\<close>, \<open>port\<close> and \<open>useHttps\<close> select the host the network function stands for\<close>
  "probeDevice env ip port username password useHttps =
     probeAttempts env username password 0
       [(ISAPI_DEVICE_INFO @ ''?format=json'', ''application/json''),
        (ISAPI_DEVICE_INFO, ''text/xml, application/xml, */*'')]"

subsection \<open>Name matching\<close>

definition isTargetDevice :: "deviceInfo option \<Rightarrow> string \<Rightarrow> bool" where
  "isTargetDevice info targetName =
     (case info of
        None \<Rightarrow> False
      | Some i \<Rightarrow>
          if targetName = [] then False
          else
            (let target = trim (toLowerCase targetName);
                 candidates =
                   map (\<lambda>v. trim (toLowerCase v))
                     (filter (\<lambda>v. v \<noteq> [])
                        (List.map_filter (\<lambda>f. f)
                           [deviceName i, model i, serialNumber i, macAddress i]));
                 fieldMatch =
                   list_ex (\<lambda>c. c = target \<or> includes_str c target \<or> includes_str target c)
                     candidates
             in if fieldMatch then True
                else
                  (case raw_payload i of
                     None \<Rightarrow> False
                   | Some (RawText t) \<Rightarrow>
                       if t = [] then False else includes_str (toLowerCase t) target
                   | Some (RawObject js) \<Rightarrow> includes_str (toLowerCase js) target)))"

subsection \<open>Notions used to state the matching rule\<close>

text \<open>
  The populated identity fields (present and not empty), and the raw payload as text,
  if there is one: a missing or empty \<open>_raw\<close> is none.
\<close>

definition populatedFields :: "deviceInfo \<Rightarrow> string list" where
  "populatedFields i =
     filter (\<lambda>v. v \<noteq> [])
       (List.map_filter (\<lambda>f. f) [deviceName i, model i, serialNumber i, macAddress i])"

definition rawText :: "deviceInfo \<Rightarrow> string option" where
  "rawText i =
     (case raw_payload i of
        None \<Rightarrow> None
      | Some (RawText t) \<Rightarrow> if t = [] then None else Some t
      | Some (RawObject js) \<Rightarrow> Some js)"

section \<open>Sample inputs\<close>

subsection \<open>Sample devices\<close>

definition sampleEntry :: rawEvent where
  "sampleEntry =
     \<lparr> raw_employeeNoString = Some ''HYP001'', raw_employeeNo = None,
       raw_name = Some ''A Student'', raw_cardNo = None, raw_minor = Some 75,
       raw_minorDesc = None, raw_inOutStatus = None,
       raw_time = Some ''2024-11-20T07:45:00+03:00'', raw_doorNo = Some 1,
       raw_serialNo = Some 1021 \<rparr>"

definition sampleOpts :: opts where
  "sampleOpts =
     \<lparr> opt_startTime = Some ''2024-11-20T00:00:00'', opt_endTime = Some ''2024-11-20T23:59:59'',
       opt_maxResults = None, opt_allPages = None \<rparr>"

definition overshootDevice :: device where
  \<comment> \<open>declares five matches and answers every request with three entries\<close>
  "overshootDevice k req =
     Inr (Some \<lparr> totalMatches = Some 5, InfoList = Some (replicate 3 sampleEntry) \<rparr>)"

definition cappedDevice :: device where
  \<comment> \<open>holds five matches and returns at most two of them per page, from the offset asked;
      past the end it returns an empty page\<close>
  "cappedDevice k req =
     Inr (Some \<lparr> totalMatches = Some 5,
                  InfoList = Some (replicate (min 2 (5 - searchResultPosition req)) sampleEntry) \<rparr>)"

definition scan :: "string \<Rightarrow> string \<Rightarrow> AttendanceRecord" where
  \<comment> \<open>the record of one scan by person \<open>p\<close> at device time \<open>t\<close>\<close>
  "scan p t =
     normalise ''2024-11-20T12:00:00.000Z''
       (sampleEntry \<lparr> raw_employeeNoString := Some p, raw_time := Some t \<rparr>)"

definition sampleConfig :: cloudConfig where
  "sampleConfig = \<lparr> schoolCode = ''SCH01'', retryAttempts = 3, retryDelayMs = 2000 \<rparr>"

definition sampleBatch :: "ProcessedAttendance list" where
  "sampleBatch =
     [\<lparr> adm_no = ''HYP001'', time_in = ''07:45:00'', time_out = None \<rparr>,
      \<lparr> adm_no = ''HYP002'', time_in = ''08:10:22'', time_out = Some ''14:35:07'' \<rparr>]"

definition recoveringCloud :: "nat \<Rightarrow> syncPayload \<Rightarrow> string outcome" where
  \<comment> \<open>answers 500 to the first attempt and 200 from the second on\<close>
  "recoveringCloud n p =
     (if n = 1 then Rejected (Some (500, Some ''Internal Server Error''))
      else Resolved 200 (Some ''ok''))"

definition rejectingCloud :: "nat \<Rightarrow> syncPayload \<Rightarrow> string outcome" where
  \<comment> \<open>answers 400 to the first attempt and would answer 200 to any later one\<close>
  "rejectingCloud n p =
     (if n = 1 then Rejected (Some (400, Some ''Bad Request''))
      else Resolved 200 (Some ''ok''))"

definition failingCloud :: "nat \<Rightarrow> syncPayload \<Rightarrow> string outcome" where
  \<comment> \<open>unreachable twice, then answers 503\<close>
  "failingCloud n p =
     (if n < 3 then Rejected None else Rejected (Some (503, Some ''Service Unavailable'')))"

definition sampleDevice :: deviceInfo where
  "sampleDevice =
     \<lparr> deviceName = Some ''Main Gate'', model = Some ''DS-K1T342MFX-E1'',
       serialNumber = Some ''DS-K1T342MFX-E120230817V043900ENAB1234567'',
       firmwareVersion = Some ''V4.39.180'', macAddress = None,
       raw_payload = Some (RawText
         ''<DeviceInfo><deviceName>Main Gate</deviceName><deviceLocation>Block C</deviceLocation></DeviceInfo>'') \<rparr>"

definition accentedDevice :: deviceInfo where
  \<comment> \<open>a device named in capitals with an accented letter, 0xC9\<close>
  "accentedDevice =
     \<lparr> deviceName = Some (''CAF'' @ [CHR 0xC9] @ '' GATE''), model = None,
       serialNumber = None, firmwareVersion = None, macAddress = None,
       raw_payload = None \<rparr>"

definition deadNetwork :: network where
  \<comment> \<open>a host that never answers\<close>
  "deadNetwork n req = Inl (TransportError ''timeout of 2500ms exceeded'')"

definition sampleEnv :: probeEnv where
  "sampleEnv =
     \<lparr> env_net = deadNetwork, env_md5 = md5_hex, env_cnonce = (\<lambda>n. ''0a4f113b0a4f113b''),
       env_jsonInfo = (\<lambda>body. Inl (ParseError ''Unexpected token < in JSON'')),
       env_parseXml = None \<rparr>"

definition answeringNetwork :: network where
  \<comment> \<open>a terminal: it challenges a request without credentials and answers one with
      credentials in XML, whatever format was asked for\<close>
  "answeringNetwork n req =
     (case req_authorization req of
        None \<Rightarrow>
          Inr \<lparr> resp_status = 401,
                resp_wwwAuthenticate = Some ''Digest qop=auth, realm=DS-K1T342, nonce=4e6a51'',
                resp_contentType = None, resp_data = [] \<rparr>
      | Some credentials \<Rightarrow>
          Inr \<lparr> resp_status = 200, resp_wwwAuthenticate = None,
                resp_contentType = Some ''application/xml'',
                resp_data = ''<DeviceInfo><model>DS-K1T342MFX-E1</model></DeviceInfo>'' \<rparr>)"

subsection \<open>Sample challenges\<close>

text \<open>
  The challenge of the worked example of RFC 2617 (section 3.5), which offers the list
  \<open>auth,auth-int\<close> of \<open>qop\<close> values, and the same challenge offering \<open>auth\<close> alone.
\<close>

definition listChallenge :: string where
  "listChallenge =
     ''Digest realm='' @ quoted ''testrealm@host.com'' @ '', qop='' @ quoted ''auth,auth-int''
       @ '', nonce='' @ quoted ''dcd98b7102dd2f0e8b11d0f600bfb0c093''
       @ '', opaque='' @ quoted ''5ccc069c403ebaf9f0171e9517f40e41''"

definition authChallenge :: string where
  "authChallenge =
     ''Digest realm='' @ quoted ''testrealm@host.com'' @ '', qop='' @ quoted ''auth''
       @ '', nonce='' @ quoted ''dcd98b7102dd2f0e8b11d0f600bfb0c093''
       @ '', opaque='' @ quoted ''5ccc069c403ebaf9f0171e9517f40e41''"

section \<open>Properties of the protocol client\<close>

subsection \<open>Timestamps\<close>

text \<open>
  C8. The timestamps placed in the request payload are \<open>stripTz\<close> of the ones supplied.
  \<open>stripTz\<close> removes a trailing \<open>Z\<close>, a trailing \<open>+HH:MM\<close> and a sub-second part, but
  its pattern has no minus sign: a timestamp with a negative offset and no sub-second
  part goes to the device with the offset still on it, whereas \<open>parseDeviceTime\<close>
  strips both signs.
\<close>

theorem stripTz_keeps_negative_offset:
  "stripTz ''2024-11-20T14:35:07-03:00'' = ''2024-11-20T14:35:07-03:00''
   \<and> startTime (buildPayload
         \<lparr> opt_startTime = Some ''2024-11-20T14:35:07-03:00'',
           opt_endTime = Some ''2024-11-20T23:59:59-03:00'',
           opt_maxResults = None, opt_allPages = None \<rparr> 0)
       = ''2024-11-20T14:35:07-03:00''
   \<and> stripTz ''2024-11-20T14:35:07+03:00'' = ''2024-11-20T14:35:07''
   \<and> stripTz ''2024-11-20T14:35:07.250Z'' = ''2024-11-20T14:35:07''
   \<and> map_option time_raw (parseDeviceTime (Some ''2024-11-20T14:35:07-03:00'')) = Some ''14:35:07''"
  by code_simp

subsection \<open>How many records pagination returns\<close>

declare remainingPages.simps [simp del]

lemma searchResultPosition_buildPayload [simp]:
  "searchResultPosition (buildPayload os n) = n"
  by (simp add: buildPayload_def)

lemma buildPayload_offset:
  "buildPayload os n = (buildPayload os 0) \<lparr> searchResultPosition := n \<rparr>"
  by (simp add: buildPayload_def)

lemma remainingPages_cases:
  assumes "remainingPages dev os tot k events = (log, r)"
  obtains
    (finished) "\<not> int (length events) < tot" "log = []" "r = Inr events"
  | (failed) e where "int (length events) < tot"
      "dev k (buildPayload os (length events)) = Inl e"
      "log = [buildPayload os (length events)]" "r = Inl e"
  | (empty) p where "int (length events) < tot"
      "dev k (buildPayload os (length events)) = Inr p"
      "pageEntries p = []" "log = [buildPayload os (length events)]" "r = Inr events"
  | (more) p log' where "int (length events) < tot"
      "dev k (buildPayload os (length events)) = Inr p" "pageEntries p \<noteq> []"
      "remainingPages dev os tot (Suc k) (events @ pageEntries p) = (log', r)"
      "log = buildPayload os (length events) # log'"
proof (cases "int (length events) < tot")
  case False
  with assms that(1) show ?thesis by (simp add: remainingPages.simps)
next
  case lt: True
  show ?thesis
  proof (cases "dev k (buildPayload os (length events))")
    case (Inl e)
    with assms lt that(2) show ?thesis
      by (simp add: remainingPages.simps[of dev os tot k events])
  next
    case (Inr p)
    show ?thesis
    proof (cases "pageEntries p = []")
      case True
      with assms lt Inr that(3) show ?thesis
        by (simp add: remainingPages.simps[of dev os tot k events])
    next
      case False
      obtain log' r' where
        rec: "remainingPages dev os tot (Suc k) (events @ pageEntries p) = (log', r')"
        by (cases "remainingPages dev os tot (Suc k) (events @ pageEntries p)")
      with assms lt Inr False have "log = buildPayload os (length events) # log'" "r = r'"
        by (simp_all add: remainingPages.simps[of dev os tot k events])
      with rec lt Inr False that(4) show ?thesis by simp
    qed
  qed
qed

lemma remainingPages_log:
  assumes "remainingPages dev os tot k events = (log, r)"
  shows "int (length log) \<le> max 0 (tot - int (length events))
    \<and> (\<forall>i<length log. log ! i = buildPayload os (length events + receivedFrom dev k log i)
          \<and> int (length events + receivedFrom dev k log i) < tot)
    \<and> (\<forall>i. Suc i < length log \<longrightarrow> entriesOf (dev (k + i) (log ! i)) \<noteq> [])"
  using assms
proof (induction dev os tot k events arbitrary: log r rule: remainingPages.induct)
  case (1 dev os tot k events)
  from "1.prems" show ?case
  proof (cases rule: remainingPages_cases)
    case finished
    then show ?thesis by simp
  next
    case (failed e)
    then show ?thesis by simp
  next
    case (empty p)
    then show ?thesis by simp
  next
    case (more p log')
    from more(3) have ne: "length (pageEntries p) \<noteq> 0" by simp
    note IH = "1.IH"[OF more(1) refl refl more(2) refl ne more(4)]
    have A: "int (length log) \<le> max 0 (tot - int (length events))"
      using IH more(1,3,5) by (cases "pageEntries p") auto
    have B: "log ! i = buildPayload os (length events + receivedFrom dev k log i)
          \<and> int (length events + receivedFrom dev k log i) < tot" if "i < length log" for i
    proof (cases i)
      case 0
      with more show ?thesis by simp
    next
      case (Suc i')
      with that more(5) have "i' < length log'" by simp
      with IH have
        "log' ! i' = buildPayload os
           (length (events @ pageEntries p) + receivedFrom dev (Suc k) log' i')"
        "int (length (events @ pageEntries p) + receivedFrom dev (Suc k) log' i') < tot"
        by auto
      with Suc more(2,5) show ?thesis by (simp add: entriesOf_def add.assoc)
    qed
    have C: "entriesOf (dev (k + i) (log ! i)) \<noteq> []" if "Suc i < length log" for i
    proof (cases i)
      case 0
      with more show ?thesis by (simp add: entriesOf_def)
    next
      case (Suc i')
      with that more(5) have "Suc i' < length log'" by simp
      with IH have "entriesOf (dev (Suc k + i') (log' ! i')) \<noteq> []" by blast
      with Suc more(5) show ?thesis by simp
    qed
    from A B C show ?thesis by blast
  qed
qed

lemma remainingPages_bound:
  assumes "remainingPages dev os tot k events = (log, Inr evs)"
    and "\<forall>i<length log. \<forall>p. dev (k + i) (log ! i) = Inr p \<longrightarrow>
           int (searchResultPosition (log ! i)) + int (length (pageEntries p)) \<le> tot"
    and "int (length events) \<le> tot"
  shows "int (length evs) \<le> tot"
  using assms
proof (induction dev os tot k events arbitrary: log evs rule: remainingPages.induct)
  case (1 dev os tot k events)
  from "1.prems"(1) show ?case
  proof (cases rule: remainingPages_cases)
    case finished
    with "1.prems"(3) show ?thesis by simp
  next
    case (failed e)
    then show ?thesis by simp
  next
    case (empty p)
    with "1.prems"(3) show ?thesis by simp
  next
    case (more p log')
    from more(3) have ne: "length (pageEntries p) \<noteq> 0" by simp
    from "1.prems"(2)[rule_format, of 0 p] more(2,5)
    have fit: "int (length (events @ pageEntries p)) \<le> tot" by simp
    have rest: "\<forall>i<length log'. \<forall>q. dev (Suc k + i) (log' ! i) = Inr q \<longrightarrow>
           int (searchResultPosition (log' ! i)) + int (length (pageEntries q)) \<le> tot"
    proof (intro allI impI)
      fix i q
      assume "i < length log'" and "dev (Suc k + i) (log' ! i) = Inr q"
      with "1.prems"(2)[rule_format, of "Suc i" q] more(5)
      show "int (searchResultPosition (log' ! i)) + int (length (pageEntries q)) \<le> tot"
        by simp
    qed
    from "1.IH"[OF more(1) refl refl more(2) refl ne more(4) rest fit]
    show ?thesis .
  qed
qed

lemma getAttendanceEvents_missing:
  assumes "opt_startTime os \<in> {None, Some []} \<or> opt_endTime os \<in> {None, Some []}"
  shows "getAttendanceEvents now dev os = ([], Inl MissingTimeRange)"
  using assms by (simp add: getAttendanceEvents_def)

lemma getAttendanceEvents_first_failed:
  assumes "\<not> (opt_startTime os \<in> {None, Some []} \<or> opt_endTime os \<in> {None, Some []})"
    and "dev 0 (buildPayload os 0) = Inl e"
  shows "getAttendanceEvents now dev os = ([buildPayload os 0], Inl e)"
  using assms by (simp add: getAttendanceEvents_def)

lemma getAttendanceEvents_one_page:
  assumes "\<not> (opt_startTime os \<in> {None, Some []} \<or> opt_endTime os \<in> {None, Some []})"
    and "dev 0 (buildPayload os 0) = Inr first"
    and "\<not> (opt_allPages os \<noteq> Some False \<and> pageTotal first > int (length (pageEntries first)))"
  shows "getAttendanceEvents now dev os =
           ([buildPayload os 0], Inr (map (normalise now) (pageEntries first)))"
  using assms by (auto simp: getAttendanceEvents_def Let_def)

lemma getAttendanceEvents_paged:
  assumes "\<not> (opt_startTime os \<in> {None, Some []} \<or> opt_endTime os \<in> {None, Some []})"
    and "dev 0 (buildPayload os 0) = Inr first"
    and "opt_allPages os \<noteq> Some False" "pageTotal first > int (length (pageEntries first))"
    and "remainingPages dev os (pageTotal first) 1 (pageEntries first) = (log, r)"
  shows "getAttendanceEvents now dev os =
           (buildPayload os 0 # log, map_sum id (map (normalise now)) r)"
  using assms by (simp add: getAttendanceEvents_def)

lemma getAttendanceEvents_cases:
  obtains
    (missing) "getAttendanceEvents now dev os = ([], Inl MissingTimeRange)"
  | (first_failed) e where "dev 0 (buildPayload os 0) = Inl e"
      "getAttendanceEvents now dev os = ([buildPayload os 0], Inl e)"
  | (one_page) first where "dev 0 (buildPayload os 0) = Inr first"
      "\<not> (opt_allPages os \<noteq> Some False \<and> pageTotal first > int (length (pageEntries first)))"
      "getAttendanceEvents now dev os =
         ([buildPayload os 0], Inr (map (normalise now) (pageEntries first)))"
  | (paged) first log r where "dev 0 (buildPayload os 0) = Inr first"
      "pageTotal first > int (length (pageEntries first))"
      "remainingPages dev os (pageTotal first) 1 (pageEntries first) = (log, r)"
      "getAttendanceEvents now dev os =
         (buildPayload os 0 # log, map_sum id (map (normalise now)) r)"
proof (cases "opt_startTime os \<in> {None, Some []} \<or> opt_endTime os \<in> {None, Some []}")
  case True
  from getAttendanceEvents_missing[OF this] that(1) show ?thesis by blast
next
  case given: False
  show ?thesis
  proof (cases "dev 0 (buildPayload os 0)")
    case (Inl e)
    from getAttendanceEvents_first_failed[where dev=dev and os=os, OF given this] Inl that(2)
    show ?thesis by blast
  next
    case (Inr first)
    show ?thesis
    proof (cases "opt_allPages os \<noteq> Some False
                  \<and> pageTotal first > int (length (pageEntries first))")
      case False
      from getAttendanceEvents_one_page[where dev=dev and os=os, OF given Inr this] Inr False that(3)
      show ?thesis by blast
    next
      case True
      obtain log r where
        rp: "remainingPages dev os (pageTotal first) 1 (pageEntries first) = (log, r)"
        by (cases "remainingPages dev os (pageTotal first) 1 (pageEntries first)")
      from True getAttendanceEvents_paged[where dev=dev and os=os, OF given Inr _ _ rp] Inr rp that(4)
      show ?thesis by blast
    qed
  qed
qed

text \<open>
  C1, as stated, fails: a device that declares five matches and returns three entries
  per page makes \<open>getAttendanceEvents\<close> return six records.
\<close>

theorem pagination_overshoot:
  "declaredTotal overshootDevice sampleOpts = 5
   \<and> map_sum id length (snd (getAttendanceEvents ''2024-11-20T12:00:00.000Z'' overshootDevice sampleOpts))
       = Inr 6"
  by code_simp

lemma remainingPages_received:
  assumes "remainingPages dev os tot k events = (log, Inr evs)"
  shows "length events \<le> length evs
    \<and> (\<forall>i<length log. \<forall>p. dev (k + i) (log ! i) = Inr p \<longrightarrow>
          searchResultPosition (log ! i) + length (pageEntries p) \<le> length evs)"
  using assms
proof (induction dev os tot k events arbitrary: log evs rule: remainingPages.induct)
  case (1 dev os tot k events)
  from "1.prems" show ?case
  proof (cases rule: remainingPages_cases)
    case finished
    then show ?thesis by simp
  next
    case (failed e)
    then show ?thesis by simp
  next
    case (empty p)
    then show ?thesis by simp
  next
    case (more p log')
    from more(3) have ne: "length (pageEntries p) \<noteq> 0" by simp
    note IH = "1.IH"[OF more(1) refl refl more(2) refl ne more(4)]
    from IH have grown: "length events + length (pageEntries p) \<le> length evs" by simp
    have "searchResultPosition (log ! i) + length (pageEntries q) \<le> length evs"
      if "i < length log" "dev (k + i) (log ! i) = Inr q" for i q
    proof (cases i)
      case 0
      with that more(2,5) have "q = p" by simp
      with 0 more(5) grown show ?thesis by simp
    next
      case (Suc j)
      with that more(5) have "j < length log'" "dev (Suc k + j) (log' ! j) = Inr q" by simp_all
      with IH have "searchResultPosition (log' ! j) + length (pageEntries q) \<le> length evs"
        by blast
      with Suc more(5) show ?thesis by simp
    qed
    with grown show ?thesis by simp
  qed
qed

lemma pagination_fits_bounded:
  assumes log: "fst (getAttendanceEvents now dev os) = log"
    and fits: "\<forall>i<length log. \<forall>p. dev i (log ! i) = Inr p \<longrightarrow>
             int (searchResultPosition (log ! i)) + int (length (pageEntries p))
               \<le> declaredTotal dev os"
    and res: "snd (getAttendanceEvents now dev os) = Inr records"
  shows "int (length records) \<le> declaredTotal dev os"
proof (cases rule: getAttendanceEvents_cases[of now dev os])
  case missing
  with res show ?thesis by simp
next
  case (first_failed e)
  with res show ?thesis by simp
next
  case (one_page first)
  from one_page(3) log have "log = [buildPayload os 0]" by simp
  with fits[rule_format, of 0 first] one_page(1)
  have "int (length (pageEntries first)) \<le> declaredTotal dev os" by simp
  with one_page(3) res show ?thesis by auto
next
  case (paged first log' r)
  from paged(1) have tot: "declaredTotal dev os = pageTotal first"
    by (simp add: declaredTotal_def)
  from paged(4) log have l: "log = buildPayload os 0 # log'" by simp
  from paged(4) res obtain evs where r: "r = Inr evs" and recs: "records = map (normalise now) evs"
    by (cases r) auto
  from paged(2) have first: "int (length (pageEntries first)) \<le> pageTotal first" by simp
  have rest: "\<forall>i<length log'. \<forall>p. dev (1 + i) (log' ! i) = Inr p \<longrightarrow>
           int (searchResultPosition (log' ! i)) + int (length (pageEntries p)) \<le> pageTotal first"
  proof (intro allI impI)
    fix i p
    assume "i < length log'" and "dev (1 + i) (log' ! i) = Inr p"
    with fits[rule_format, of "Suc i" p] l tot
    show "int (searchResultPosition (log' ! i)) + int (length (pageEntries p)) \<le> pageTotal first"
      by simp
  qed
  from remainingPages_bound[OF paged(3)[unfolded r] rest first] recs tot
  show ?thesis by simp
qed

lemma pagination_received:
  assumes log: "fst (getAttendanceEvents now dev os) = log"
    and res: "snd (getAttendanceEvents now dev os) = Inr records"
    and i: "i < length log" "dev i (log ! i) = Inr p"
  shows "searchResultPosition (log ! i) + length (pageEntries p) \<le> length records"
proof (cases rule: getAttendanceEvents_cases[of now dev os])
  case missing
  with res show ?thesis by simp
next
  case (first_failed e)
  with res show ?thesis by simp
next
  case (one_page first)
  from one_page(3) log have l: "log = [buildPayload os 0]" by simp
  with i have "i = 0" by simp
  with i(2) l one_page(1) have "p = first" by simp
  with one_page(3) res l \<open>i = 0\<close> show ?thesis by auto
next
  case (paged first log' r)
  from paged(4) log have l: "log = buildPayload os 0 # log'" by simp
  from paged(4) res obtain evs where r: "r = Inr evs" and recs: "records = map (normalise now) evs"
    by (cases r) auto
  note R = remainingPages_received[OF paged(3)[unfolded r]]
  show ?thesis
  proof (cases i)
    case 0
    with i(2) l paged(1) have "p = first" by simp
    with 0 l R recs show ?thesis by simp
  next
    case (Suc j)
    with i l have "j < length log'" "dev (1 + j) (log' ! j) = Inr p" by simp_all
    with R have "searchResultPosition (log' ! j) + length (pageEntries p) \<le> length evs"
      by blast
    with Suc l recs show ?thesis by simp
  qed
qed

text \<open>
  C1, amended. Let \<open>log\<close> be the requests \<open>getAttendanceEvents\<close> sends, in order, and let
  it return records. Whatever the fetch-all-pages flag, the records number at most the
  total the first page declares exactly when no page received in answer to one of those
  requests holds more entries than remain after the offset of that request (offset +
  page length \<le> that total). Nothing is asked of the device on requests that are not
  sent.
\<close>

theorem pagination_bounded:
  assumes log: "fst (getAttendanceEvents now dev os) = log"
    and res: "snd (getAttendanceEvents now dev os) = Inr records"
  shows "int (length records) \<le> declaredTotal dev os \<longleftrightarrow>
           (\<forall>i<length log. \<forall>p. dev i (log ! i) = Inr p \<longrightarrow>
              int (searchResultPosition (log ! i)) + int (length (pageEntries p))
                \<le> declaredTotal dev os)"
proof
  assume bounded: "int (length records) \<le> declaredTotal dev os"
  show "\<forall>i<length log. \<forall>p. dev i (log ! i) = Inr p \<longrightarrow>
          int (searchResultPosition (log ! i)) + int (length (pageEntries p))
            \<le> declaredTotal dev os"
  proof (intro allI impI)
    fix i p
    assume "i < length log" and "dev i (log ! i) = Inr p"
    from pagination_received[OF log res this]
    have "int (searchResultPosition (log ! i)) + int (length (pageEntries p))
            \<le> int (length records)"
      by linarith
    with bounded
    show "int (searchResultPosition (log ! i)) + int (length (pageEntries p))
            \<le> declaredTotal dev os"
      by linarith
  qed
next
  assume "\<forall>i<length log. \<forall>p. dev i (log ! i) = Inr p \<longrightarrow>
            int (searchResultPosition (log ! i)) + int (length (pageEntries p))
              \<le> declaredTotal dev os"
  from pagination_fits_bounded[OF log this res]
  show "int (length records) \<le> declaredTotal dev os" .
qed

theorem pagination_bounded_witness:
  "fst (getAttendanceEvents ''2024-11-20T12:00:00.000Z'' cappedDevice sampleOpts)
     = [buildPayload sampleOpts 0, buildPayload sampleOpts 2, buildPayload sampleOpts 4]
   \<and> snd (getAttendanceEvents ''2024-11-20T12:00:00.000Z'' cappedDevice sampleOpts)
     = Inr (map (normalise ''2024-11-20T12:00:00.000Z'') (replicate 5 sampleEntry))
   \<and> int (length (map (normalise ''2024-11-20T12:00:00.000Z'') (replicate 5 sampleEntry)))
       \<le> declaredTotal cappedDevice sampleOpts"
proof -
  let ?log = "[buildPayload sampleOpts 0, buildPayload sampleOpts 2, buildPayload sampleOpts 4]"
  have tot: "declaredTotal cappedDevice sampleOpts = 5"
    by code_simp
  have log: "fst (getAttendanceEvents ''2024-11-20T12:00:00.000Z'' cappedDevice sampleOpts) = ?log"
    by code_simp
  have fits: "\<forall>i<length ?log. \<forall>p. cappedDevice i (?log ! i) = Inr p \<longrightarrow>
       int (searchResultPosition (?log ! i)) + int (length (pageEntries p))
         \<le> declaredTotal cappedDevice sampleOpts"
    unfolding tot
    by (auto simp: cappedDevice_def pageEntries_def less_Suc_eq nth_Cons split: nat.splits)
  have res: "snd (getAttendanceEvents ''2024-11-20T12:00:00.000Z'' cappedDevice sampleOpts)
       = Inr (map (normalise ''2024-11-20T12:00:00.000Z'') (replicate 5 sampleEntry))"
    by code_simp
  from pagination_bounded[OF log res] fits
  have "int (length (map (normalise ''2024-11-20T12:00:00.000Z'') (replicate 5 sampleEntry)))
          \<le> declaredTotal cappedDevice sampleOpts"
    by blast
  with log res show ?thesis by blast
qed

subsection \<open>Termination of the pagination loop\<close>



section \<open>Properties of the attendance processor\<close>

subsection \<open>Sorting\<close>

lemma set_insertBy [simp]: "set (insertBy cmp x xs) = insert x (set xs)"
  by (induction xs) auto

lemma set_sortBy [simp]: "set (sortBy cmp xs) = set xs"
  unfolding sortBy_def by (induction xs) auto

lemma sortBy_Nil_iff [simp]: "sortBy cmp xs = [] \<longleftrightarrow> xs = []"
  by (metis set_sortBy set_empty)

lemma compareTimeStrings_le: "compareTimeStrings a b \<le> 0 \<longleftrightarrow> a \<le> b"
  by (auto simp: compareTimeStrings_def)

lemma sorted_insertBy:
  fixes key :: "'a \<Rightarrow> string"
  assumes "sorted_wrt (\<lambda>a b. key a \<le> key b) xs"
  shows "sorted_wrt (\<lambda>a b. key a \<le> key b)
           (insertBy (\<lambda>a b. compareTimeStrings (key a) (key b)) x xs)"
  using assms
proof (induction xs)
  case Nil
  then show ?case by simp
next
  case (Cons y ys)
  show ?case
  proof (cases "key x \<le> key y")
    case True
    with Cons.prems show ?thesis
      by (auto simp: compareTimeStrings_le intro: order_trans)
  next
    case False
    then have "key y \<le> key x" by simp
    with False Cons show ?thesis
      by (auto simp: compareTimeStrings_le)
  qed
qed

lemma sorted_sortBy:
  fixes key :: "'a \<Rightarrow> string"
  shows "sorted_wrt (\<lambda>a b. key a \<le> key b)
           (sortBy (\<lambda>a b. compareTimeStrings (key a) (key b)) xs)"
  unfolding sortBy_def by (induction xs) (simp_all add: sorted_insertBy)

lemma sorted_hd_least:
  assumes "sorted_wrt (\<lambda>a b. key a \<le> (key b :: string)) xs" "y \<in> set xs"
  shows "key (hd xs) \<le> key y"
  using assms by (cases xs) auto

lemma sorted_last_greatest:
  assumes "sorted_wrt (\<lambda>a b. key a \<le> (key b :: string)) xs" "y \<in> set xs"
  shows "key y \<le> key (last xs)"
  using assms by (induction xs) auto

subsection \<open>Parsed times\<close>

lemma firstMatch_Some:
  assumes "firstMatch f s = Some v"
  shows "\<exists>n. f (drop n s) = Some v"
  using assms
proof (induction s)
  case Nil
  then show ?case by simp
next
  case (Cons c cs)
  show ?case
  proof (cases "f (c # cs)")
    case None
    with Cons obtain n where "f (drop n cs) = Some v" by auto
    then have "f (drop (Suc n) (c # cs)) = Some v" by simp
    then show ?thesis by blast
  next
    case (Some w)
    with Cons.prems have "f (drop 0 (c # cs)) = Some v" by simp
    then show ?thesis by blast
  qed
qed

lemma parseDeviceTime_wellFormed:
  assumes "parseDeviceTime x = Some t"
  shows "wellFormed t"
proof -
  from assms obtain str hh mm ss where
    m: "firstMatch timeAt (stripOffsetSuffix {CHR ''+'', CHR ''-''} (stripTrailingZ str)) = Some (hh, mm, ss)"
    and t: "t = \<lparr> time_h = parseInt2 hh, time_m = parseInt2 mm, time_s = parseInt2 ss,
                   time_raw = hh @ '':'' @ mm @ '':'' @ ss \<rparr>"
    by (auto simp: parseDeviceTime_def Let_def split: option.splits if_splits)
  from firstMatch_Some[OF m] obtain u where "timeAt u = Some (hh, mm, ss)" by blast
  then have "isDigit (u ! 1) \<and> isDigit (u ! 2) \<and> isDigit (u ! 4) \<and> isDigit (u ! 5)
       \<and> isDigit (u ! 7) \<and> isDigit (u ! 8)
       \<and> hh = [u ! 1, u ! 2] \<and> mm = [u ! 4, u ! 5] \<and> ss = [u ! 7, u ! 8]"
    by (auto simp: timeAt_def split: if_splits)
  with t show ?thesis unfolding wellFormed_def by auto
qed

lemma digit_less: "isDigit c \<Longrightarrow> isDigit d \<Longrightarrow> c < d \<longleftrightarrow> digitVal c < digitVal d"
  by (auto simp: isDigit_def digitVal_def less_char_def)

lemma digit_eq: "isDigit c \<Longrightarrow> isDigit d \<Longrightarrow> c = d \<longleftrightarrow> digitVal c = digitVal d"
proof -
  assume "isDigit c" "isDigit d"
  then have "(of_char c :: nat) = of_char d \<longleftrightarrow> digitVal c = digitVal d"
    unfolding isDigit_def digitVal_def by arith
  then show ?thesis by simp
qed

lemma digitVal_less_10: "isDigit c \<Longrightarrow> digitVal c < 10"
  by (auto simp: isDigit_def digitVal_def)

lemma two_digits_less:
  fixes a1 a2 b1 b2 :: nat
  assumes "a2 < 10" "b2 < 10"
  shows "10 * a1 + a2 < 10 * b1 + b2 \<longleftrightarrow> a1 < b1 \<or> (a1 = b1 \<and> a2 < b2)"
proof (cases a1 b1 rule: linorder_cases)
  case less
  then have "10 * a1 + 10 \<le> 10 * b1" by simp
  with assms less show ?thesis by simp
next
  case equal
  then show ?thesis by simp
next
  case greater
  then have "10 * b1 + 10 \<le> 10 * a1" by simp
  with assms greater show ?thesis by simp
qed

lemma two_digits_eq:
  fixes a1 a2 b1 b2 :: nat
  assumes "a2 < 10" "b2 < 10"
  shows "10 * a1 + a2 = 10 * b1 + b2 \<longleftrightarrow> a1 = b1 \<and> a2 = b2"
proof -
  have "10 * a1 + a2 = 10 * b1 + b2 \<longleftrightarrow>
          \<not> 10 * a1 + a2 < 10 * b1 + b2 \<and> \<not> 10 * b1 + b2 < 10 * a1 + a2"
    by auto
  also have "\<dots> \<longleftrightarrow> a1 = b1 \<and> a2 = b2"
    unfolding two_digits_less[OF assms] two_digits_less[OF assms(2,1)] by auto
  finally show ?thesis .
qed

lemma raw_le_chronLe:
  assumes "wellFormed a" "wellFormed b"
  shows "time_raw a \<le> time_raw b \<longleftrightarrow> chronLe a b"
proof -
  from assms(1) obtain h1 h2 m1 m2 s1 s2 where
    a: "isDigit h1" "isDigit h2" "isDigit m1" "isDigit m2" "isDigit s1" "isDigit s2"
       "time_raw a = [h1, h2, CHR '':'', m1, m2, CHR '':'', s1, s2]"
       "time_h a = 10 * digitVal h1 + digitVal h2"
       "time_m a = 10 * digitVal m1 + digitVal m2"
       "time_s a = 10 * digitVal s1 + digitVal s2"
    unfolding wellFormed_def by blast
  from assms(2) obtain k1 k2 n1 n2 r1 r2 where
    b: "isDigit k1" "isDigit k2" "isDigit n1" "isDigit n2" "isDigit r1" "isDigit r2"
       "time_raw b = [k1, k2, CHR '':'', n1, n2, CHR '':'', r1, r2]"
       "time_h b = 10 * digitVal k1 + digitVal k2"
       "time_m b = 10 * digitVal n1 + digitVal n2"
       "time_s b = 10 * digitVal r1 + digitVal r2"
    unfolding wellFormed_def by blast
  note lt = digitVal_less_10
  have H: "time_h a < time_h b \<longleftrightarrow> h1 < k1 \<or> (h1 = k1 \<and> h2 < k2)"
    and He: "time_h a = time_h b \<longleftrightarrow> h1 = k1 \<and> h2 = k2"
    using a b by (simp_all add: two_digits_less two_digits_eq lt digit_less digit_eq)
  have M: "time_m a < time_m b \<longleftrightarrow> m1 < n1 \<or> (m1 = n1 \<and> m2 < n2)"
    and Me: "time_m a = time_m b \<longleftrightarrow> m1 = n1 \<and> m2 = n2"
    using a b by (simp_all add: two_digits_less two_digits_eq lt digit_less digit_eq)
  have S: "time_s a \<le> time_s b \<longleftrightarrow> s1 < r1 \<or> (s1 = r1 \<and> s2 \<le> r2)"
  proof -
    have "time_s a \<le> time_s b \<longleftrightarrow> time_s a < time_s b \<or> time_s a = time_s b" by auto
    also have "\<dots> \<longleftrightarrow> (s1 < r1 \<or> (s1 = r1 \<and> s2 < r2)) \<or> (s1 = r1 \<and> s2 = r2)"
      using a b by (simp add: two_digits_less two_digits_eq lt digit_less digit_eq)
    also have "\<dots> \<longleftrightarrow> s1 < r1 \<or> (s1 = r1 \<and> s2 \<le> r2)" by auto
    finally show ?thesis .
  qed
  have "time_raw a \<le> time_raw b \<longleftrightarrow>
          h1 < k1 \<or> (h1 = k1 \<and> (h2 < k2 \<or> (h2 = k2 \<and>
            (m1 < n1 \<or> (m1 = n1 \<and> (m2 < n2 \<or> (m2 = n2 \<and>
              (s1 < r1 \<or> (s1 = r1 \<and> s2 \<le> r2)))))))))"
    unfolding a(7) b(7) by auto
  also have "\<dots> \<longleftrightarrow> chronLe a b"
    unfolding chronLe_def H He M Me S by auto
  finally show ?thesis .
qed

subsection \<open>Grouping by person\<close>

lemma set_map_filter:
  "set (List.map_filter f xs) = {y. \<exists>x\<in>set xs. f x = Some y}"
  by (induction xs) (auto split: option.splits)

lemma pushTo_keys:
  "map fst (pushTo i r m) = (if i \<in> set (map fst m) then map fst m else map fst m @ [i])"
proof (induction m)
  case Nil
  show ?case by simp
next
  case (Cons kv m)
  obtain k es where kv: "kv = (k, es)" by (cases kv)
  show ?case
  proof (cases "k = i")
    case True
    with kv show ?thesis by simp
  next
    case False
    with kv Cons show ?thesis by simp
  qed
qed

lemma pushTo_map_of:
  "map_of (pushTo i r m) =
     (map_of m)(i \<mapsto> (case map_of m i of None \<Rightarrow> [r] | Some es \<Rightarrow> es @ [r]))"
  by (induction m) (auto simp: fun_eq_iff)

lemma groupByStudent_snoc:
  "groupByStudent (xs @ [x]) = pushTo (idOf x) x (groupByStudent xs)"
  by (simp add: groupByStudent_def)

lemma groupByStudent_inv:
  "distinct (map fst (groupByStudent xs))
   \<and> fst ` set (groupByStudent xs) = idOf ` set xs
   \<and> (\<forall>k. map_of (groupByStudent xs) k =
          (if k \<in> idOf ` set xs then Some (filter (\<lambda>r. idOf r = k) xs) else None))"
proof (induction xs rule: rev_induct)
  case Nil
  show ?case by (simp add: groupByStudent_def)
next
  case (snoc x xs)
  let ?m = "groupByStudent xs"
  from snoc have d: "distinct (map fst ?m)" and keys: "fst ` set ?m = idOf ` set xs"
    and look: "\<And>k. map_of ?m k =
          (if k \<in> idOf ` set xs then Some (filter (\<lambda>r. idOf r = k) xs) else None)"
    by blast+
  have K: "map fst (groupByStudent (xs @ [x]))
             = (if idOf x \<in> fst ` set ?m then map fst ?m else map fst ?m @ [idOf x])"
    by (simp add: groupByStudent_snoc pushTo_keys)
  have 1: "distinct (map fst (groupByStudent (xs @ [x])))"
    unfolding K using d by auto
  have "set (map fst (groupByStudent (xs @ [x]))) = idOf ` set (xs @ [x])"
    unfolding K using keys by auto
  then have 2: "fst ` set (groupByStudent (xs @ [x])) = idOf ` set (xs @ [x])"
    by simp
  have 3: "map_of (groupByStudent (xs @ [x])) k =
          (if k \<in> idOf ` set (xs @ [x])
           then Some (filter (\<lambda>r. idOf r = k) (xs @ [x])) else None)" for k
  proof (cases "k = idOf x")
    case True
    show ?thesis
    proof (cases "idOf x \<in> idOf ` set xs")
      case True
      with \<open>k = idOf x\<close> look[of k] show ?thesis
        by (simp add: groupByStudent_snoc pushTo_map_of)
    next
      case False
      then have "\<forall>r\<in>set xs. idOf r \<noteq> idOf x"
        by (metis imageI)
      then have "filter (\<lambda>r. idOf r = idOf x) xs = []"
        by (simp add: filter_empty_conv)
      with False \<open>k = idOf x\<close> look[of k] show ?thesis
        by (simp add: groupByStudent_snoc pushTo_map_of)
    qed
  next
    case False
    with look[of k] show ?thesis
      by (simp add: groupByStudent_snoc pushTo_map_of)
  qed
  from 1 2 3 show ?case by blast
qed

lemma groupByStudent_entry:
  assumes "(k, es) \<in> set (groupByStudent xs)"
  shows "es = filter (\<lambda>r. idOf r = k) xs" "k \<in> idOf ` set xs"
proof -
  from groupByStudent_inv[of xs] have d: "distinct (map fst (groupByStudent xs))"
    and look: "map_of (groupByStudent xs) k =
          (if k \<in> idOf ` set xs then Some (filter (\<lambda>r. idOf r = k) xs) else None)"
    by blast+
  from assms d have "map_of (groupByStudent xs) k = Some es" by simp
  with look show "es = filter (\<lambda>r. idOf r = k) xs" "k \<in> idOf ` set xs"
    by (auto split: if_splits)
qed

subsection \<open>One record per person\<close>

lemma set_sortedTimes:
  "snd ` set (sortedTimes es) = {t. \<exists>e\<in>set es. parseDeviceTime (eventTime e) = Some t}"
  by (force simp: sortedTimes_def set_map_filter image_iff)

lemma sortedTimes_sorted:
  "sorted_wrt (\<lambda>a b. time_raw (snd a) \<le> time_raw (snd b)) (sortedTimes es)"
  unfolding sortedTimes_def by (rule sorted_sortBy)

lemma sortedTimes_wellFormed:
  assumes "x \<in> set (sortedTimes es)"
  shows "wellFormed (snd x)"
proof -
  from assms have "snd x \<in> snd ` set (sortedTimes es)" by simp
  then have "snd x \<in> {t. \<exists>e\<in>set es. parseDeviceTime (eventTime e) = Some t}"
    by (simp only: set_sortedTimes)
  then obtain e :: AttendanceRecord where "parseDeviceTime (eventTime e) = Some (snd x)"
    by blast
  then show ?thesis by (rule parseDeviceTime_wellFormed)
qed

lemma isTimeOut_atOrAfter: "isTimeOut hour minute t = atOrAfter hour minute t"
  by (auto simp: isTimeOut_def atOrAfter_def)

lemma set_personTimes:
  "set (personTimes records p) =
     snd ` set (sortedTimes (filter (\<lambda>r. idOf r = p) (filter validId records)))"
  unfolding set_sortedTimes by (auto simp: personTimes_def set_map_filter)

text \<open>What a record of the output was computed from.\<close>

lemma processAttendance_record:
  assumes "r \<in> set (processAttendance hour minute records)"
  obtains es where
    "es = filter (\<lambda>e. idOf e = adm_no r) (filter validId records)"
    "adm_no r \<in> idOf ` set (filter validId records)"
    "sortedTimes es \<noteq> []"
    "time_in r = time_raw (snd (hd (sortedTimes es)))"
    "time_out r =
       (if filter (\<lambda>x. isTimeOut hour minute (snd x)) (sortedTimes es) \<noteq> []
        then Some (time_raw (snd (last (filter (\<lambda>x. isTimeOut hour minute (snd x)) (sortedTimes es)))))
        else None)"
proof -
  from assms obtain k es where
    mem: "(k, es) \<in> set (groupByStudent (filter validId records))"
    and col: "collapse hour minute (k, es) = Some r"
    by (auto simp: processAttendance_def Let_def set_map_filter)
  from col have ne: "sortedTimes es \<noteq> []"
    by (auto simp: collapse_def Let_def split: if_splits)
  with col have r: "r = \<lparr> adm_no = k, time_in = time_raw (snd (hd (sortedTimes es))),
       time_out =
         (if filter (\<lambda>x. isTimeOut hour minute (snd x)) (sortedTimes es) \<noteq> []
          then Some (time_raw (snd (last (filter (\<lambda>x. isTimeOut hour minute (snd x)) (sortedTimes es)))))
          else None) \<rparr>"
    by (simp add: collapse_def Let_def)
  have k: "adm_no r = k" by (simp add: r)
  from groupByStudent_entry[OF mem] k
  have "es = filter (\<lambda>e. idOf e = adm_no r) (filter validId records)"
    "adm_no r \<in> idOf ` set (filter validId records)" by simp_all
  moreover have "time_in r = time_raw (snd (hd (sortedTimes es)))" by (simp add: r)
  moreover have "time_out r =
       (if filter (\<lambda>x. isTimeOut hour minute (snd x)) (sortedTimes es) \<noteq> []
        then Some (time_raw (snd (last (filter (\<lambda>x. isTimeOut hour minute (snd x)) (sortedTimes es)))))
        else None)" by (simp add: r)
  ultimately show ?thesis using ne that by blast
qed

text \<open>
  C2. For every record of the output: \<open>time_in\<close> is the text of a parseable event time of
  that person's retained events that is chronologically no later than any other;
  \<open>time_out\<close> is present exactly when one of those times is at or after the threshold,
  and is then the text of one that is chronologically no earlier than any other such.
\<close>

theorem processAttendance_time_in_out:
  assumes "r \<in> set (processAttendance hour minute records)"
  shows "(let ts = personTimes records (adm_no r);
              late = filter (atOrAfter hour minute) ts
          in (\<exists>t\<in>set ts. time_in r = time_raw t \<and> (\<forall>u\<in>set ts. chronLe t u))
             \<and> (time_out r \<noteq> None \<longleftrightarrow> late \<noteq> [])
             \<and> (\<forall>out. time_out r = Some out \<longrightarrow>
                   (\<exists>t\<in>set late. out = time_raw t \<and> (\<forall>u\<in>set late. chronLe u t))))"
proof -
  from assms obtain es where
    es: "es = filter (\<lambda>e. idOf e = adm_no r) (filter validId records)"
    and ne: "sortedTimes es \<noteq> []"
    and tin: "time_in r = time_raw (snd (hd (sortedTimes es)))"
    and tout: "time_out r =
       (if filter (\<lambda>x. isTimeOut hour minute (snd x)) (sortedTimes es) \<noteq> []
        then Some (time_raw (snd (last (filter (\<lambda>x. isTimeOut hour minute (snd x)) (sortedTimes es)))))
        else None)"
    by (rule processAttendance_record)
  let ?sorted = "sortedTimes es"
  let ?post = "filter (\<lambda>x. isTimeOut hour minute (snd x)) ?sorted"
  let ?ts = "personTimes records (adm_no r)"
  let ?late = "filter (atOrAfter hour minute) ?ts"
  have ts: "set ?ts = snd ` set ?sorted"
    unfolding es by (rule set_personTimes)
  have late: "set ?late = snd ` set ?post"
    using ts by (auto simp: isTimeOut_atOrAfter)
  note srt = sortedTimes_sorted[of es]
  have first: "\<exists>t\<in>set ?ts. time_in r = time_raw t \<and> (\<forall>u\<in>set ?ts. chronLe t u)"
  proof -
    from ne have hd_in: "hd ?sorted \<in> set ?sorted" by (rule hd_in_set)
    have "chronLe (snd (hd ?sorted)) u" if "u \<in> set ?ts" for u
    proof -
      from that have "u \<in> snd ` set ?sorted" by (simp only: ts)
      then obtain y where y: "y \<in> set ?sorted" "u = snd y" by blast
      from sorted_hd_least[OF srt y(1)]
      have "time_raw (snd (hd ?sorted)) \<le> time_raw (snd y)" .
      with raw_le_chronLe[OF sortedTimes_wellFormed[OF hd_in] sortedTimes_wellFormed[OF y(1)]] y(2)
      show ?thesis by simp
    qed
    with hd_in tin ts show ?thesis by blast
  qed
  have present: "time_out r \<noteq> None \<longleftrightarrow> ?late \<noteq> []"
  proof -
    have "?late \<noteq> [] \<longleftrightarrow> ?post \<noteq> []"
      using late by (metis image_is_empty set_empty)
    with tout show ?thesis by simp
  qed
  have latest: "\<exists>t\<in>set ?late. out = time_raw t \<and> (\<forall>u\<in>set ?late. chronLe u t)"
    if "time_out r = Some out" for out
  proof -
    from that tout have pne: "?post \<noteq> []" and out: "out = time_raw (snd (last ?post))"
      by (auto split: if_splits)
    from pne have last_in: "last ?post \<in> set ?post" by (rule last_in_set)
    then have last_sorted: "last ?post \<in> set ?sorted" by simp
    from srt have psrt: "sorted_wrt (\<lambda>a b. time_raw (snd a) \<le> time_raw (snd b)) ?post"
      by (rule sorted_wrt_filter)
    have "chronLe u (snd (last ?post))" if "u \<in> set ?late" for u
    proof -
      from that have "u \<in> snd ` set ?post" by (simp only: late)
      then obtain y where y: "y \<in> set ?post" "u = snd y" by blast
      then have ys: "y \<in> set ?sorted" by simp
      from sorted_last_greatest[OF psrt y(1)]
      have "time_raw (snd y) \<le> time_raw (snd (last ?post))" .
      with raw_le_chronLe[OF sortedTimes_wellFormed[OF ys] sortedTimes_wellFormed[OF last_sorted]] y(2)
      show ?thesis by simp
    qed
    with last_in out late show ?thesis by blast
  qed
  from first present latest show ?thesis by (simp add: Let_def)
qed

theorem processAttendance_time_in_out_witness:
  "processAttendance 14 30
     [scan ''A'' ''2024-11-20T14:35:07+03:00'', scan ''A'' ''2024-11-20T08:10:22'',
      scan ''A'' ''2024-11-20T16:02:41Z'']
     = [\<lparr> adm_no = ''A'', time_in = ''08:10:22'', time_out = Some ''16:02:41'' \<rparr>]
   \<and> personTimes
        [scan ''A'' ''2024-11-20T14:35:07+03:00'', scan ''A'' ''2024-11-20T08:10:22'',
         scan ''A'' ''2024-11-20T16:02:41Z''] ''A''
     = [\<lparr> time_h = 14, time_m = 35, time_s = 7, time_raw = ''14:35:07'' \<rparr>,
        \<lparr> time_h = 8, time_m = 10, time_s = 22, time_raw = ''08:10:22'' \<rparr>,
        \<lparr> time_h = 16, time_m = 2, time_s = 41, time_raw = ''16:02:41'' \<rparr>]
   \<and> chronLe \<lparr> time_h = 8, time_m = 10, time_s = 22, time_raw = ''08:10:22'' \<rparr>
              \<lparr> time_h = 14, time_m = 35, time_s = 7, time_raw = ''14:35:07'' \<rparr>
   \<and> chronLe \<lparr> time_h = 14, time_m = 35, time_s = 7, time_raw = ''14:35:07'' \<rparr>
              \<lparr> time_h = 16, time_m = 2, time_s = 41, time_raw = ''16:02:41'' \<rparr>"
proof -
  let ?recs = "[scan ''A'' ''2024-11-20T14:35:07+03:00'', scan ''A'' ''2024-11-20T08:10:22'',
                scan ''A'' ''2024-11-20T16:02:41Z'']"
  let ?r = "\<lparr> adm_no = ''A'', time_in = ''08:10:22'', time_out = Some ''16:02:41'' \<rparr>"
  let ?t1 = "\<lparr> time_h = 14, time_m = 35, time_s = 7, time_raw = ''14:35:07'' \<rparr>"
  let ?t2 = "\<lparr> time_h = 8, time_m = 10, time_s = 22, time_raw = ''08:10:22'' \<rparr>"
  let ?t3 = "\<lparr> time_h = 16, time_m = 2, time_s = 41, time_raw = ''16:02:41'' \<rparr>"
  have out: "processAttendance 14 30 ?recs = [?r]"
    by code_simp
  have ts: "personTimes ?recs ''A'' = [?t1, ?t2, ?t3]"
    by code_simp
  have late: "filter (atOrAfter 14 30) [?t1, ?t2, ?t3] = [?t1, ?t3]"
    by (simp add: atOrAfter_def)
  have mem: "?r \<in> set (processAttendance 14 30 ?recs)"
    by (simp only: out list.set insertI1)
  from processAttendance_time_in_out[OF mem]
  have "(\<exists>t\<in>set [?t1, ?t2, ?t3]. ''08:10:22'' = time_raw t \<and> (\<forall>u\<in>set [?t1, ?t2, ?t3]. chronLe t u))"
    and "(\<exists>t\<in>set [?t1, ?t3]. ''16:02:41'' = time_raw t \<and> (\<forall>u\<in>set [?t1, ?t3]. chronLe u t))"
    by (simp_all only: Let_def ts late ProcessedAttendance.simps)
  then have "chronLe ?t2 ?t1" "chronLe ?t1 ?t3"
    by auto
  with out ts show ?thesis by simp
qed

text \<open>
  C10. In every record that carries a \<open>time_out\<close>, \<open>time_in\<close> is not after it: in the order of
  the "HH:MM:SS" strings, by the comparator the code sorts with, and on the clock.
\<close>

theorem processAttendance_in_before_out:
  assumes "r \<in> set (processAttendance hour minute records)"
    and "time_out r = Some out"
  shows "time_in r \<le> out \<and> compareTimeStrings (time_in r) out \<le> 0
         \<and> (\<exists>a b. a \<in> set (personTimes records (adm_no r))
                  \<and> b \<in> set (personTimes records (adm_no r))
                  \<and> time_in r = time_raw a \<and> out = time_raw b \<and> chronLe a b)"
proof -
  from assms(1) obtain es where
    es: "es = filter (\<lambda>e. idOf e = adm_no r) (filter validId records)"
    and ne: "sortedTimes es \<noteq> []"
    and tin: "time_in r = time_raw (snd (hd (sortedTimes es)))"
    and tout: "time_out r =
       (if filter (\<lambda>x. isTimeOut hour minute (snd x)) (sortedTimes es) \<noteq> []
        then Some (time_raw (snd (last (filter (\<lambda>x. isTimeOut hour minute (snd x)) (sortedTimes es)))))
        else None)"
    by (rule processAttendance_record)
  let ?sorted = "sortedTimes es"
  let ?post = "filter (\<lambda>x. isTimeOut hour minute (snd x)) ?sorted"
  from assms(2) tout have pne: "?post \<noteq> []" and out: "out = time_raw (snd (last ?post))"
    by (auto split: if_splits)
  from pne have "last ?post \<in> set ?post" by (rule last_in_set)
  then have last_in: "last ?post \<in> set ?sorted" by simp
  from ne have hd_in: "hd ?sorted \<in> set ?sorted" by (rule hd_in_set)
  from sorted_hd_least[OF sortedTimes_sorted last_in] tin out
  have le: "time_in r \<le> out" by simp
  have ts: "set (personTimes records (adm_no r)) = snd ` set ?sorted"
    unfolding es by (rule set_personTimes)
  from le raw_le_chronLe[OF sortedTimes_wellFormed[OF hd_in] sortedTimes_wellFormed[OF last_in]]
    tin out
  have "chronLe (snd (hd ?sorted)) (snd (last ?post))" by simp
  moreover from hd_in last_in ts
  have "snd (hd ?sorted) \<in> set (personTimes records (adm_no r))"
    "snd (last ?post) \<in> set (personTimes records (adm_no r))" by auto
  ultimately have "\<exists>a b. a \<in> set (personTimes records (adm_no r))
                  \<and> b \<in> set (personTimes records (adm_no r))
                  \<and> time_in r = time_raw a \<and> out = time_raw b \<and> chronLe a b"
    using tin out by blast
  with le show ?thesis by (simp add: compareTimeStrings_le)
qed

theorem processAttendance_in_before_out_witness:
  "processAttendance 14 30
     [scan ''B'' ''2024-11-20T17:20:00'', scan ''B'' ''2024-11-20T15:05:09'']
     = [\<lparr> adm_no = ''B'', time_in = ''15:05:09'', time_out = Some ''17:20:00'' \<rparr>]
   \<and> ''15:05:09'' \<le> ''17:20:00''
   \<and> compareTimeStrings ''15:05:09'' ''17:20:00'' \<le> 0"
proof -
  let ?recs = "[scan ''B'' ''2024-11-20T17:20:00'', scan ''B'' ''2024-11-20T15:05:09'']"
  let ?r = "\<lparr> adm_no = ''B'', time_in = ''15:05:09'', time_out = Some ''17:20:00'' \<rparr>"
  have out: "processAttendance 14 30 ?recs = [?r]"
    by code_simp
  have mem: "?r \<in> set (processAttendance 14 30 ?recs)"
    by (simp only: out list.set insertI1)
  have "time_out ?r = Some ''17:20:00''" by simp
  from processAttendance_in_before_out[OF mem this] out
  show ?thesis by simp
qed

subsection \<open>Events without a person identifier\<close>

text \<open>
  C7. An event whose identifier, trimmed, is empty or "0" has no part in the output:
  the output is that of the input without such events, every record's \<open>adm_no\<close> is the
  trimmed identifier of some input event and is neither empty nor "0", and an input
  made only of such events gives the empty list.
\<close>

theorem processAttendance_discards_invalid_ids:
  "processAttendance hour minute records
     = processAttendance hour minute (filter (\<lambda>e. idOf e \<noteq> [] \<and> idOf e \<noteq> ''0'') records)
   \<and> (\<forall>r\<in>set (processAttendance hour minute records).
         adm_no r \<noteq> [] \<and> adm_no r \<noteq> ''0'' \<and> (\<exists>e\<in>set records. idOf e = adm_no r))
   \<and> ((\<forall>e\<in>set records. idOf e = [] \<or> idOf e = ''0'')
        \<longrightarrow> processAttendance hour minute records = [])"
proof -
  have v: "validId = (\<lambda>e. idOf e \<noteq> [] \<and> idOf e \<noteq> ''0'')"
    by (simp add: validId_def fun_eq_iff Let_def)
  have 1: "processAttendance hour minute records
     = processAttendance hour minute (filter (\<lambda>e. idOf e \<noteq> [] \<and> idOf e \<noteq> ''0'') records)"
    by (simp add: processAttendance_def v)
  have 2: "adm_no r \<noteq> [] \<and> adm_no r \<noteq> ''0'' \<and> (\<exists>e\<in>set records. idOf e = adm_no r)"
    if "r \<in> set (processAttendance hour minute records)" for r
  proof -
    from that have "adm_no r \<in> idOf ` set (filter validId records)"
      by (rule processAttendance_record)
    then obtain e where "e \<in> set records" "validId e" "idOf e = adm_no r" by auto
    then show ?thesis unfolding v by auto
  qed
  have 3: "processAttendance hour minute records = []"
    if "\<forall>e\<in>set records. idOf e = [] \<or> idOf e = ''0''"
  proof -
    from that have "filter validId records = []"
      unfolding v by (auto simp: filter_empty_conv)
    then show ?thesis by (simp add: processAttendance_def groupByStudent_def)
  qed
  from 1 2 3 show ?thesis by blast
qed

theorem processAttendance_discards_invalid_ids_witness:
  "processAttendance 14 30 [scan ''0'' ''2024-11-20T09:00:00''] = []
   \<and> processAttendance 14 30 [scan ''  '' ''2024-11-20T09:00:00'', scan '' 0 '' ''2024-11-20T09:30:00''] = []
   \<and> processAttendance 14 30 [scan ''0'' ''2024-11-20T09:00:00'', scan ''A'' ''2024-11-20T07:45:00'']
       = [\<lparr> adm_no = ''A'', time_in = ''07:45:00'', time_out = None \<rparr>]"
proof -
  have a: "\<forall>e\<in>set [scan ''0'' ''2024-11-20T09:00:00'']. idOf e = [] \<or> idOf e = ''0''"
    by code_simp
  have b: "\<forall>e\<in>set [scan ''  '' ''2024-11-20T09:00:00'', scan '' 0 '' ''2024-11-20T09:30:00''].
             idOf e = [] \<or> idOf e = ''0''"
    by code_simp
  have c: "filter (\<lambda>e. idOf e \<noteq> [] \<and> idOf e \<noteq> ''0'')
             [scan ''0'' ''2024-11-20T09:00:00'', scan ''A'' ''2024-11-20T07:45:00'']
           = [scan ''A'' ''2024-11-20T07:45:00'']"
    by code_simp
  have d: "processAttendance 14 30 [scan ''A'' ''2024-11-20T07:45:00'']
       = [\<lparr> adm_no = ''A'', time_in = ''07:45:00'', time_out = None \<rparr>]"
    by code_simp
  from processAttendance_discards_invalid_ids[of 14 30 "[scan ''0'' ''2024-11-20T09:00:00'']"] a
  have 1: "processAttendance 14 30 [scan ''0'' ''2024-11-20T09:00:00''] = []" by blast
  from processAttendance_discards_invalid_ids[of 14 30
         "[scan ''  '' ''2024-11-20T09:00:00'', scan '' 0 '' ''2024-11-20T09:30:00'']"] b
  have 2: "processAttendance 14 30
             [scan ''  '' ''2024-11-20T09:00:00'', scan '' 0 '' ''2024-11-20T09:30:00''] = []"
    by blast
  from processAttendance_discards_invalid_ids[of 14 30
         "[scan ''0'' ''2024-11-20T09:00:00'', scan ''A'' ''2024-11-20T07:45:00'']"]
  have 3: "processAttendance 14 30 [scan ''0'' ''2024-11-20T09:00:00'', scan ''A'' ''2024-11-20T07:45:00'']
       = [\<lparr> adm_no = ''A'', time_in = ''07:45:00'', time_out = None \<rparr>]"
    unfolding c d by blast
  from 1 2 3 show ?thesis by blast
qed

section \<open>Properties of the cloud sync\<close>

declare retryLoop.simps [simp del]

lemma retryLoop_exhausted:
  assumes "\<not> int a \<le> retryAttempts cfg"
  shows "retryLoop cfg cloud p a lastError = ([], failureResult lastError)"
  using assms by (simp add: retryLoop.simps)

lemma retryLoop_resolved:
  assumes "int a \<le> retryAttempts cfg" "cloud a p = Resolved status body"
  shows "retryLoop cfg cloud p a lastError =
           ([Post a], \<lparr> success = True, sent = length (attendance p), response = body \<rparr>)"
  using assms by (simp add: retryLoop.simps)

lemma retryLoop_client_error:
  assumes "int a \<le> retryAttempts cfg" "cloud a p = Rejected resp" "isClientError resp"
  shows "retryLoop cfg cloud p a lastError = ([Post a], failureResult (Some resp))"
  using assms by (simp add: retryLoop.simps)

lemma retryLoop_last:
  assumes "int a = retryAttempts cfg" "cloud a p = Rejected resp" "\<not> isClientError resp"
  shows "retryLoop cfg cloud p a lastError = ([Post a], failureResult (Some resp))"
proof -
  from assms(1) have "\<not> int (Suc a) \<le> retryAttempts cfg" by simp
  then have "retryLoop cfg cloud p (Suc a) (Some resp) = ([], failureResult (Some resp))"
    by (rule retryLoop_exhausted)
  with assms show ?thesis
    by (simp add: retryLoop.simps[of cfg cloud p a])
qed

lemma retryLoop_retry:
  assumes "int a < retryAttempts cfg" "cloud a p = Rejected resp" "\<not> isClientError resp"
  shows "retryLoop cfg cloud p a lastError =
           (Post a # Sleep (retryDelayMs cfg) # fst (retryLoop cfg cloud p (Suc a) (Some resp)),
            snd (retryLoop cfg cloud p (Suc a) (Some resp)))"
  using assms by (simp add: retryLoop.simps[of cfg cloud p a] split: prod.splits)

lemma retryable_iff:
  "retryable oc \<longleftrightarrow> (\<exists>resp. oc = Rejected resp \<and> \<not> isClientError resp)"
  by (auto simp: retryable_def isClientError_def split: outcome.splits option.splits)

lemma finalResult_Rejected: "finalResult att (Rejected resp) = failureResult (Some resp)"
  by (auto simp: finalResult_def failureResult_def split: option.splits)

lemma retryLoop_decisive:
  assumes "a \<le> k" "int k \<le> retryAttempts cfg"
    and "\<forall>j. a \<le> j \<and> j < k \<longrightarrow> retryable (cloud j p)"
    and "\<not> retryable (cloud k p) \<or> int k = retryAttempts cfg"
  shows "retryLoop cfg cloud p a lastError =
           (schedule (retryDelayMs cfg) a (Suc (k - a)), finalResult (attendance p) (cloud k p))"
  using assms
proof (induction "k - a" arbitrary: a lastError)
  case 0
  then have ak: "a = k" by simp
  show ?case
  proof (cases "cloud k p")
    case (Resolved status body)
    with 0 ak show ?thesis
      by (simp add: retryLoop_resolved finalResult_def)
  next
    case (Rejected resp)
    show ?thesis
    proof (cases "isClientError resp")
      case True
      with Rejected 0 ak show ?thesis
        by (simp add: retryLoop_client_error finalResult_Rejected)
    next
      case False
      with Rejected have "retryable (cloud k p)" by (simp add: retryable_iff)
      with "0.prems"(4) have "int k = retryAttempts cfg" by simp
      with Rejected False ak show ?thesis
        by (simp add: retryLoop_last finalResult_Rejected)
    qed
  qed
next
  case (Suc n)
  then have lt: "a < k" by simp
  with Suc.prems(3) have "retryable (cloud a p)" by simp
  then obtain resp where resp: "cloud a p = Rejected resp" "\<not> isClientError resp"
    by (auto simp: retryable_iff)
  from lt Suc.prems(2) have aN: "int a < retryAttempts cfg" by simp
  from Suc.hyps(2) have n: "n = k - Suc a" by simp
  from lt have le: "Suc a \<le> k" by simp
  from Suc.prems(3) have rest: "\<forall>j. Suc a \<le> j \<and> j < k \<longrightarrow> retryable (cloud j p)" by simp
  from Suc.hyps(1)[OF n le Suc.prems(2) rest Suc.prems(4)]
  have "retryLoop cfg cloud p (Suc a) (Some resp) =
          (schedule (retryDelayMs cfg) (Suc a) (Suc (k - Suc a)),
           finalResult (attendance p) (cloud k p))" .
  moreover from lt have "Suc (k - a) = Suc (Suc (k - Suc a))" by simp
  ultimately show ?case
    by (simp add: retryLoop_retry[where cloud=cloud and p=p, OF aN resp])
qed

lemma retryLoop_schedule:
  "\<exists>m. fst (retryLoop cfg cloud p a lastError) = schedule (retryDelayMs cfg) a m
       \<and> int (a + m) \<le> max (int a) (retryAttempts cfg + 1)
       \<and> (int a \<le> retryAttempts cfg \<longrightarrow> 0 < m)"
proof (induction cfg cloud p a lastError rule: retryLoop.induct)
  case (1 cfg cloud p a lastError)
  show ?case
  proof (cases "int a \<le> retryAttempts cfg")
    case False
    then have "fst (retryLoop cfg cloud p a lastError) = schedule (retryDelayMs cfg) a 0"
      by (simp add: retryLoop_exhausted)
    with False show ?thesis by (intro exI[of _ 0]) simp
  next
    case enter: True
    have one: ?thesis if "fst (retryLoop cfg cloud p a lastError) = [Post a]"
      using that enter by (intro exI[of _ 1]) simp
    show ?thesis
    proof (cases "cloud a p")
      case (Resolved status body)
      with enter show ?thesis by (intro one) (simp add: retryLoop_resolved)
    next
      case (Rejected resp)
      show ?thesis
      proof (cases "isClientError resp")
        case True
        with enter Rejected show ?thesis by (intro one) (simp add: retryLoop_client_error)
      next
        case False
        show ?thesis
        proof (cases "int a < retryAttempts cfg")
          case False
          with enter have "int a = retryAttempts cfg" by simp
          with Rejected \<open>\<not> isClientError resp\<close> show ?thesis
            by (intro one) (simp add: retryLoop_last)
        next
          case True
          from "1.IH"(1)[OF enter Rejected \<open>\<not> isClientError resp\<close> True]
          obtain m where m:
            "fst (retryLoop cfg cloud p (Suc a) (Some resp)) = schedule (retryDelayMs cfg) (Suc a) m"
            "int (Suc a + m) \<le> max (int (Suc a)) (retryAttempts cfg + 1)"
            "int (Suc a) \<le> retryAttempts cfg \<longrightarrow> 0 < m"
            by blast
          from True m(3) obtain m' where m': "m = Suc m'" by (cases m) auto
          have "fst (retryLoop cfg cloud p a lastError)
                  = schedule (retryDelayMs cfg) a (Suc m)"
            by (simp add: retryLoop_retry[where cloud=cloud and p=p,
                             OF True Rejected \<open>\<not> isClientError resp\<close>] m(1) m')
          moreover from m(2) True have "int (a + Suc m) \<le> max (int a) (retryAttempts cfg + 1)"
            by simp
          ultimately show ?thesis by (intro exI[of _ "Suc m"]) simp
        qed
      qed
    qed
  qed
qed

text \<open>
  C3. For a non-empty batch: the posts and sleeps are those of at most the configured
  number of attempts, with the configured delay between them; and if attempt \<open>k\<close> is
  within that number, every attempt before it failed with a network error or a status
  outside 400..499, and attempt \<open>k\<close> succeeded, was rejected with a 4xx status, or was
  the last one allowed, then exactly \<open>k\<close> attempts are made and the result is that of
  attempt \<open>k\<close>: success with the full count, or failure with that error's body.
\<close>

theorem syncToCloud_retry_policy:
  assumes "att \<noteq> []"
  shows "(\<exists>m. int m \<le> max 0 (retryAttempts cfg)
             \<and> fst (syncToCloud cfg cloud att d) = schedule (retryDelayMs cfg) 1 m)
       \<and> (\<forall>k. 1 \<le> k \<and> int k \<le> retryAttempts cfg
              \<and> (\<forall>j. 1 \<le> j \<and> j < k \<longrightarrow>
                    retryable (cloud j \<lparr> school_code = schoolCode cfg, date = d, attendance = att \<rparr>))
              \<and> (\<not> retryable (cloud k \<lparr> school_code = schoolCode cfg, date = d, attendance = att \<rparr>)
                  \<or> int k = retryAttempts cfg)
            \<longrightarrow> syncToCloud cfg cloud att d
                  = (schedule (retryDelayMs cfg) 1 k,
                     finalResult att
                       (cloud k \<lparr> school_code = schoolCode cfg, date = d, attendance = att \<rparr>)))"
proof -
  let ?p = "\<lparr> school_code = schoolCode cfg, date = d, attendance = att \<rparr>"
  from assms have run: "syncToCloud cfg cloud att d = retryLoop cfg cloud ?p 1 None"
    by (simp add: syncToCloud_def)
  from retryLoop_schedule[of cfg cloud ?p 1 None] obtain m where
    "fst (retryLoop cfg cloud ?p 1 None) = schedule (retryDelayMs cfg) 1 m"
    "int (1 + m) \<le> max (int 1) (retryAttempts cfg + 1)" by blast
  then have A: "\<exists>m. int m \<le> max 0 (retryAttempts cfg)
             \<and> fst (syncToCloud cfg cloud att d) = schedule (retryDelayMs cfg) 1 m"
    unfolding run by (intro exI[of _ m]) auto
  have B: "syncToCloud cfg cloud att d
             = (schedule (retryDelayMs cfg) 1 k, finalResult att (cloud k ?p))"
    if "1 \<le> k" "int k \<le> retryAttempts cfg"
      "\<forall>j. 1 \<le> j \<and> j < k \<longrightarrow> retryable (cloud j ?p)"
      "\<not> retryable (cloud k ?p) \<or> int k = retryAttempts cfg" for k
  proof -
    from that(1) have "Suc (k - 1) = k" by simp
    with retryLoop_decisive[where cloud=cloud and p="?p" and a=1 and k=k and lastError=None,
           OF that]
    show ?thesis
      unfolding run by simp
  qed
  from A B show ?thesis by blast
qed

theorem syncToCloud_retry_policy_witness:
  "syncToCloud sampleConfig recoveringCloud sampleBatch ''2024-11-20''
     = ([Post 1, Sleep 2000, Post 2], \<lparr> success = True, sent = 2, response = Some ''ok'' \<rparr>)
   \<and> syncToCloud sampleConfig rejectingCloud sampleBatch ''2024-11-20''
     = ([Post 1], \<lparr> success = False, sent = 0, response = Some ''Bad Request'' \<rparr>)
   \<and> syncToCloud sampleConfig failingCloud sampleBatch ''2024-11-20''
     = ([Post 1, Sleep 2000, Post 2, Sleep 2000, Post 3],
        \<lparr> success = False, sent = 0, response = Some ''Service Unavailable'' \<rparr>)"
proof -
  let ?p = "\<lparr> school_code = schoolCode sampleConfig, date = ''2024-11-20'', attendance = sampleBatch \<rparr>"
  have ne: "sampleBatch \<noteq> []" by (simp add: sampleBatch_def)
  note T = syncToCloud_retry_policy[OF ne, of sampleConfig _ "''2024-11-20''", THEN conjunct2, rule_format]
  have N: "retryAttempts sampleConfig = 3" "retryDelayMs sampleConfig = 2000"
    by (simp_all add: sampleConfig_def)
  have len: "length sampleBatch = 2" by (simp add: sampleBatch_def)
  have s2: "schedule 2000 1 2 = [Post 1, Sleep 2000, Post 2]"
    and s1: "schedule 2000 1 1 = [Post 1]"
    and s3: "schedule 2000 1 3 = [Post 1, Sleep 2000, Post 2, Sleep 2000, Post 3]"
    by code_simp+
  have "syncToCloud sampleConfig recoveringCloud sampleBatch ''2024-11-20''
          = (schedule (retryDelayMs sampleConfig) 1 2, finalResult sampleBatch (recoveringCloud 2 ?p))"
  proof (rule T)
    have "j = 1" if "1 \<le> j \<and> j < 2" for j :: nat using that by simp
    then show "1 \<le> (2::nat) \<and> int 2 \<le> retryAttempts sampleConfig
        \<and> (\<forall>j. 1 \<le> j \<and> j < 2 \<longrightarrow> retryable (recoveringCloud j ?p))
        \<and> (\<not> retryable (recoveringCloud 2 ?p) \<or> int 2 = retryAttempts sampleConfig)"
      by (auto simp: N retryable_def recoveringCloud_def)
  qed
  moreover have "finalResult sampleBatch (recoveringCloud 2 ?p)
          = \<lparr> success = True, sent = 2, response = Some ''ok'' \<rparr>"
    by (simp add: finalResult_def recoveringCloud_def len)
  ultimately have 1: "syncToCloud sampleConfig recoveringCloud sampleBatch ''2024-11-20''
     = ([Post 1, Sleep 2000, Post 2], \<lparr> success = True, sent = 2, response = Some ''ok'' \<rparr>)"
    by (simp only: N s2)
  have "syncToCloud sampleConfig rejectingCloud sampleBatch ''2024-11-20''
          = (schedule (retryDelayMs sampleConfig) 1 1, finalResult sampleBatch (rejectingCloud 1 ?p))"
    by (rule T) (auto simp: N retryable_def rejectingCloud_def)
  moreover have "finalResult sampleBatch (rejectingCloud 1 ?p)
          = \<lparr> success = False, sent = 0, response = Some ''Bad Request'' \<rparr>"
    by (simp add: finalResult_def rejectingCloud_def)
  ultimately have 2: "syncToCloud sampleConfig rejectingCloud sampleBatch ''2024-11-20''
     = ([Post 1], \<lparr> success = False, sent = 0, response = Some ''Bad Request'' \<rparr>)"
    by (simp only: N s1)
  have "syncToCloud sampleConfig failingCloud sampleBatch ''2024-11-20''
          = (schedule (retryDelayMs sampleConfig) 1 3, finalResult sampleBatch (failingCloud 3 ?p))"
    by (rule T) (auto simp: N retryable_def failingCloud_def)
  moreover have "finalResult sampleBatch (failingCloud 3 ?p)
          = \<lparr> success = False, sent = 0, response = Some ''Service Unavailable'' \<rparr>"
    by (simp add: finalResult_def failingCloud_def)
  ultimately have 3: "syncToCloud sampleConfig failingCloud sampleBatch ''2024-11-20''
     = ([Post 1, Sleep 2000, Post 2, Sleep 2000, Post 3],
        \<lparr> success = False, sent = 0, response = Some ''Service Unavailable'' \<rparr>)"
    by (simp only: N s3)
  from 1 2 3 show ?thesis by blast
qed

text \<open>
  With no attempt allowed (\<open>retryAttempts\<close> below 1) nothing is posted and the result is
  the failure without a response.
\<close>

lemma syncToCloud_no_attempts:
  assumes "att \<noteq> []" "retryAttempts cfg < 1"
  shows "syncToCloud cfg cloud att d = ([], failureResult None)"
  using assms by (simp add: syncToCloud_def retryLoop_exhausted)

section \<open>Properties of device discovery\<close>

subsection \<open>Probing never raises\<close>

lemma probeAttempts_returns:
  "\<exists>identity. probeAttempts env username password n attempts = Inr identity"
proof (induction attempts arbitrary: n)
  case Nil
  show ?case by simp
next
  case (Cons attempt rest)
  obtain n2 outcome where step: "probeAttempt env username password n attempt = (n2, outcome)"
    by (cases "probeAttempt env username password n attempt")
  show ?case
  proof (cases outcome)
    case (Inl e)
    with step Cons[of n2] show ?thesis by simp
  next
    case (Inr found)
    with step Cons[of n2] show ?thesis by (cases found) simp_all
  qed
qed

text \<open>
  C6. Whatever the network does (an exception on any request, any status, any headers,
  any body) and whatever the parsers do with the body, \<open>probeDevice\<close> returns: a device
  identity or none, never an exception.
\<close>

theorem probeDevice_never_raises:
  "\<exists>identity. probeDevice env ip port username password useHttps = Inr identity"
  unfolding probeDevice_def by (rule probeAttempts_returns)

lemma startsWith_eval:
  "startsWith (c # cs) (p # ps) = (if c = p then startsWith cs ps else False)"
  by simp

lemma startsWithIgnoreCase_eval:
  "startsWithIgnoreCase s [] = True"
  "startsWithIgnoreCase [] (p # ps) = False"
  "startsWithIgnoreCase (c # cs) (p # ps)
     = (if lowerChar c = lowerChar p then startsWithIgnoreCase cs ps else False)"
  by (auto simp: startsWithIgnoreCase_def toLowerCase_def)

lemma sample_xmlField:
  "xmlField ''<DeviceInfo><model>DS-K1T342MFX-E1</model></DeviceInfo>'' ''model''
     = Some ''DS-K1T342MFX-E1''"
  "xmlField ''<DeviceInfo><model>DS-K1T342MFX-E1</model></DeviceInfo>'' ''deviceName'' = None"
  "xmlField ''<DeviceInfo><model>DS-K1T342MFX-E1</model></DeviceInfo>'' ''serialNumber'' = None"
  "xmlField ''<DeviceInfo><model>DS-K1T342MFX-E1</model></DeviceInfo>'' ''firmwareVersion'' = None"
  "xmlField ''<DeviceInfo><model>DS-K1T342MFX-E1</model></DeviceInfo>'' ''macAddress'' = None"
  by (simp_all add: xmlField_def xmlFieldAt_def startsWithIgnoreCase_eval
        lowerChar_def isUpper_def trim_def isSpace_def)

lemma sample_normaliseDeviceInfo:
  "normaliseDeviceInfo jsonInfo None
     ''<DeviceInfo><model>DS-K1T342MFX-E1</model></DeviceInfo>'' (Some ''application/xml'')
   = Inr (Some \<lparr> deviceName = None, model = Some ''DS-K1T342MFX-E1'', serialNumber = None,
            firmwareVersion = None, macAddress = None,
            raw_payload = Some (RawText
              ''<DeviceInfo><model>DS-K1T342MFX-E1</model></DeviceInfo>'') \<rparr>)"
proof -
  have a: "\<not> includes_str (toLowerCase ''application/xml'') ''json''"
    by (simp add: toLowerCase_def lowerChar_def isUpper_def)
  have b: "startsWith (trim ''<DeviceInfo><model>DS-K1T342MFX-E1</model></DeviceInfo>'') ''<''"
    by (simp add: trim_def isSpace_def)
  show ?thesis
    unfolding normaliseDeviceInfo_def Let_def by (simp add: a b sample_xmlField)
qed

theorem probeDevice_never_raises_witness:
  "probeDevice sampleEnv ''192.168.1.64'' 80 ''admin'' ''secret'' False = Inr None
   \<and> probeDevice sampleEnv ''192.168.1.64'' 80 ''admin'' ''secret'' False
       \<noteq> Inl (TransportError ''timeout of 2500ms exceeded'')
   \<and> probeDevice (sampleEnv \<lparr> env_net := answeringNetwork \<rparr>)
         ''192.168.1.64'' 80 ''admin'' ''secret'' False
       = Inr (Some \<lparr> deviceName = None, model = Some ''DS-K1T342MFX-E1'', serialNumber = None,
                firmwareVersion = None, macAddress = None,
                raw_payload = Some (RawText
                  ''<DeviceInfo><model>DS-K1T342MFX-E1</model></DeviceInfo>'') \<rparr>)"
proof -
  from probeDevice_never_raises[of sampleEnv "''192.168.1.64''" 80 "''admin''" "''secret''" False]
  obtain identity where
    r: "probeDevice sampleEnv ''192.168.1.64'' 80 ''admin'' ''secret'' False = Inr identity"
    by blast
  have dead: "probeDevice sampleEnv ''192.168.1.64'' 80 ''admin'' ''secret'' False = Inr None"
    by (simp add: probeDevice_def probeAttempt_def httpGet_def sampleEnv_def deadNetwork_def)
  have alive: "probeDevice (sampleEnv \<lparr> env_net := answeringNetwork \<rparr>)
         ''192.168.1.64'' 80 ''admin'' ''secret'' False
       = Inr (Some \<lparr> deviceName = None, model = Some ''DS-K1T342MFX-E1'', serialNumber = None,
                firmwareVersion = None, macAddress = None,
                raw_payload = Some (RawText
                  ''<DeviceInfo><model>DS-K1T342MFX-E1</model></DeviceInfo>'') \<rparr>)"
    by (simp add: probeDevice_def probeAttempt_def httpGet_def sampleEnv_def answeringNetwork_def
          sample_normaliseDeviceInfo)
  from r dead alive show ?thesis by simp
qed

subsection \<open>Name matching\<close>

lemma startsWith_prefix: "startsWith s p \<longleftrightarrow> prefix p s"
  by (induction s p rule: startsWith.induct) auto

lemma includes_str_sublist: "includes_str s t \<longleftrightarrow> sublist t s"
  by (induction s) (simp_all add: startsWith_prefix sublist_Cons_right)

text \<open>
  Letter case is ignored by lower-casing: two characters have the same lower-case form
  exactly when they are equal or one is the capital of the other.
\<close>

lemma lowerChar_eq_iff:
  "lowerChar c = lowerChar d \<longleftrightarrow>
     c = d \<or> (isUpper c \<and> (of_char d :: nat) = of_char c + 32)
           \<or> (isUpper d \<and> (of_char c :: nat) = of_char d + 32)"
proof -
  have inj: "(of_char c :: nat) = of_char d \<longleftrightarrow> c = d" for c d :: char
    by simp
  have roundtrip: "(of_char (char_of (n :: nat)) :: nat) = n" if "n < 256" for n
    using that by simp
  have up: "(of_char c :: nat) + 32 < 256" if "isUpper c" for c
    using that by (auto simp: isUpper_def)
  have val: "(of_char (lowerChar c) :: nat) = (if isUpper c then of_char c + 32 else of_char c)"
    for c
    using roundtrip[OF up[of c]] by (simp add: lowerChar_def)
  have "lowerChar c = lowerChar d \<longleftrightarrow> (of_char (lowerChar c) :: nat) = of_char (lowerChar d)"
    by (simp only: inj)
  also have "\<dots> \<longleftrightarrow> c = d \<or> (isUpper c \<and> (of_char d :: nat) = of_char c + 32)
           \<or> (isUpper d \<and> (of_char c :: nat) = of_char d + 32)"
  proof (cases "isUpper c"; cases "isUpper d")
    assume c: "isUpper c" and d: "isUpper d"
    have nc: "(of_char d :: nat) \<noteq> of_char c + 32"
      using c d by (auto simp: isUpper_def)
    have nd: "(of_char c :: nat) \<noteq> of_char d + 32"
      using c d by (auto simp: isUpper_def)
    from c d nc nd show ?thesis
      unfolding val using inj[of c d] by auto
  next
    assume c: "isUpper c" and d: "\<not> isUpper d"
    have "c \<noteq> d" using c d by auto
    with c d show ?thesis
      unfolding val by auto
  next
    assume c: "\<not> isUpper c" and d: "isUpper d"
    have "c \<noteq> d" using c d by auto
    with c d show ?thesis
      unfolding val by auto
  next
    assume c: "\<not> isUpper c" and d: "\<not> isUpper d"
    then show ?thesis
      unfolding val using inj[of c d] by auto
  qed
  finally show ?thesis .
qed

text \<open>
  C9. For a device identity and a non-empty target name, with \<open>t\<close> the target name
  lower-cased and trimmed: \<open>isTargetDevice\<close> holds exactly when some populated field
  among deviceName, model, serialNumber and macAddress, lower-cased and trimmed, equals
  \<open>t\<close>, contains \<open>t\<close> or is contained in \<open>t\<close>, or the raw payload, lower-cased, contains \<open>t\<close>.
\<close>

theorem isTargetDevice_iff:
  assumes "targetName \<noteq> []"
  shows "isTargetDevice (Some info) targetName \<longleftrightarrow>
           (\<exists>v\<in>set (populatedFields info).
               trim (toLowerCase v) = trim (toLowerCase targetName)
               \<or> sublist (trim (toLowerCase targetName)) (trim (toLowerCase v))
               \<or> sublist (trim (toLowerCase v)) (trim (toLowerCase targetName)))
           \<or> (\<exists>payload. rawText info = Some payload
                 \<and> sublist (trim (toLowerCase targetName)) (toLowerCase payload))"
proof -
  let ?t = "trim (toLowerCase targetName)"
  let ?fields = "\<exists>v\<in>set (populatedFields info).
               trim (toLowerCase v) = ?t \<or> sublist ?t (trim (toLowerCase v))
               \<or> sublist (trim (toLowerCase v)) ?t"
  let ?raw = "\<exists>payload. rawText info = Some payload \<and> sublist ?t (toLowerCase payload)"
  have fm: "list_ex (\<lambda>c. c = ?t \<or> includes_str c ?t \<or> includes_str ?t c)
              (map (\<lambda>v. trim (toLowerCase v)) (populatedFields info)) \<longleftrightarrow> ?fields"
    by (simp add: list_ex_iff includes_str_sublist)
  have rm: "(case raw_payload info of
               None \<Rightarrow> False
             | Some (RawText t) \<Rightarrow> if t = [] then False else includes_str (toLowerCase t) ?t
             | Some (RawObject js) \<Rightarrow> includes_str (toLowerCase js) ?t) \<longleftrightarrow> ?raw"
    by (auto simp: rawText_def includes_str_sublist split: option.splits rawPayload.splits)
  from assms have "isTargetDevice (Some info) targetName \<longleftrightarrow>
      (if list_ex (\<lambda>c. c = ?t \<or> includes_str c ?t \<or> includes_str ?t c)
              (map (\<lambda>v. trim (toLowerCase v)) (populatedFields info))
       then True
       else (case raw_payload info of
               None \<Rightarrow> False
             | Some (RawText t) \<Rightarrow> if t = [] then False else includes_str (toLowerCase t) ?t
             | Some (RawObject js) \<Rightarrow> includes_str (toLowerCase js) ?t))"
    by (simp add: isTargetDevice_def populatedFields_def Let_def)
  also have "\<dots> \<longleftrightarrow> ?fields \<or> ?raw"
    unfolding fm rm by simp
  finally show ?thesis .
qed

theorem isTargetDevice_iff_witness:
  "isTargetDevice (Some sampleDevice) '' ds-k1t342 ''
   \<and> isTargetDevice (Some sampleDevice) ''Block C''
   \<and> \<not> isTargetDevice (Some sampleDevice) ''Lobby''
   \<and> isTargetDevice (Some accentedDevice) (''caf'' @ [CHR 0xE9] @ '' gate'')"
proof -
  have pf: "populatedFields sampleDevice
              = [''Main Gate'', ''DS-K1T342MFX-E1'', ''DS-K1T342MFX-E120230817V043900ENAB1234567'']"
    by code_simp
  have rt: "rawText sampleDevice = Some
      ''<DeviceInfo><deviceName>Main Gate</deviceName><deviceLocation>Block C</deviceLocation></DeviceInfo>''"
    by code_simp
  have 1: "isTargetDevice (Some sampleDevice) '' ds-k1t342 ''"
  proof -
    have "includes_str (trim (toLowerCase ''DS-K1T342MFX-E1'')) (trim (toLowerCase '' ds-k1t342 ''))"
      by code_simp
    then have "sublist (trim (toLowerCase '' ds-k1t342 '')) (trim (toLowerCase ''DS-K1T342MFX-E1''))"
      by (simp only: includes_str_sublist)
    then show ?thesis
      by (subst isTargetDevice_iff) (simp_all add: pf)
  qed
  have 2: "isTargetDevice (Some sampleDevice) ''Block C''"
  proof -
    have "includes_str (toLowerCase
        ''<DeviceInfo><deviceName>Main Gate</deviceName><deviceLocation>Block C</deviceLocation></DeviceInfo>'')
        (trim (toLowerCase ''Block C''))"
      by code_simp
    then have "sublist (trim (toLowerCase ''Block C'')) (toLowerCase
        ''<DeviceInfo><deviceName>Main Gate</deviceName><deviceLocation>Block C</deviceLocation></DeviceInfo>'')"
      by (simp only: includes_str_sublist)
    then show ?thesis
      by (subst isTargetDevice_iff) (simp_all add: rt)
  qed
  have 3: "\<not> isTargetDevice (Some sampleDevice) ''Lobby''"
  proof -
    have "\<not> (list_ex (\<lambda>v. trim (toLowerCase v) = trim (toLowerCase ''Lobby'')
               \<or> includes_str (trim (toLowerCase v)) (trim (toLowerCase ''Lobby''))
               \<or> includes_str (trim (toLowerCase ''Lobby'')) (trim (toLowerCase v)))
             [''Main Gate'', ''DS-K1T342MFX-E1'', ''DS-K1T342MFX-E120230817V043900ENAB1234567'']
           \<or> includes_str (toLowerCase
        ''<DeviceInfo><deviceName>Main Gate</deviceName><deviceLocation>Block C</deviceLocation></DeviceInfo>'')
        (trim (toLowerCase ''Lobby'')))"
      by code_simp
    then show ?thesis
      by (subst isTargetDevice_iff) (simp_all add: pf rt includes_str_sublist list_ex_iff)
  qed
  have 4: "isTargetDevice (Some accentedDevice) (''caf'' @ [CHR 0xE9] @ '' gate'')"
  proof -
    have f: "populatedFields accentedDevice = [''CAF'' @ [CHR 0xC9] @ '' GATE'']"
      by code_simp
    have "trim (toLowerCase (''CAF'' @ [CHR 0xC9] @ '' GATE''))
            = trim (toLowerCase (''caf'' @ [CHR 0xE9] @ '' gate''))"
      by code_simp
    then show ?thesis
      by (subst isTargetDevice_iff) (simp_all add: f)
  qed
  from 1 2 3 4 show ?thesis by blast
qed

section \<open>Properties of the digest authenticator\<close>

subsection \<open>Upper-casing\<close>

lemma codeUnits_append: "codeUnits a @ codeUnits b = codeUnits (a @ b)"
  by (simp add: codeUnits_def)

lemma toUpperCase_samples:
  "toUpperCase ''GET'' = codeUnits ''GET''"
  "toUpperCase ''get'' = codeUnits ''GET''"
  "toUpperCase ''md5-sess'' = codeUnits ''MD5-SESS''"
  "toUpperCase (''md5-se'' @ [CHR 0xDF]) = codeUnits ''MD5-SESS''"
  "toUpperCase [CHR 0xE9, CHR 0xFF, CHR 0xB5, CHR 0xF7] = [0xC9, 0x178, 0x39C, 0xF7]"
  by (simp_all add: toUpperCase_def upperUnits_def codeUnits_def)

lemma not_session_variant: "toUpperCase ''MD5'' \<noteq> codeUnits ''MD5-SESS''"
  by (simp add: toUpperCase_def upperUnits_def codeUnits_def)

subsection \<open>The header in terms of the response formula\<close>

lemma digestHA1_specHA1:
  "digestHA1 md5 (ch_algo ch) username (ch_realm ch) password (ch_nonce ch)
     = specHA1 md5 username password ch"
  by (simp add: digestHA1_def specHA1_def Let_def)

lemma digestResponse_expected:
  "fst (digestResponse md5 cnonce method uri username password wwwAuth)
     = expectedResponse md5 cnonce method uri username password (parseChallenge wwwAuth)"
  by (simp add: digestResponse_def expectedResponse_def specHA1_def specHA2_def digestHA1_def
        parseChallenge_def Let_def)

lemma digestAuthHeader_layout:
  "digestAuthHeader md5 cnonce method uri username password wwwAuth
     = authorizationHeader username uri (parseChallenge wwwAuth) cnonce
         (expectedResponse md5 cnonce method uri username password (parseChallenge wwwAuth))"
  by (simp add: digestAuthHeader_def digestResponse_def authorizationHeader_def quoted_def
        expectedResponse_def specHA1_def specHA2_def digestHA1_def parseChallenge_def Let_def)

subsection \<open>The sample challenges\<close>

lemma sample_challenge_params:
  "digestParam listChallenge ''realm'' = ''testrealm@host.com''"
  "digestParam listChallenge ''nonce'' = ''dcd98b7102dd2f0e8b11d0f600bfb0c093''"
  "digestParam listChallenge ''qop'' = ''auth,auth-int''"
  "digestParam listChallenge ''opaque'' = ''5ccc069c403ebaf9f0171e9517f40e41''"
  "digestParam listChallenge ''algorithm'' = []"
  "digestParam authChallenge ''realm'' = ''testrealm@host.com''"
  "digestParam authChallenge ''nonce'' = ''dcd98b7102dd2f0e8b11d0f600bfb0c093''"
  "digestParam authChallenge ''qop'' = ''auth''"
  "digestParam authChallenge ''opaque'' = ''5ccc069c403ebaf9f0171e9517f40e41''"
  "digestParam authChallenge ''algorithm'' = []"
  by (simp_all add: digestParam_def quotedAt_def unquotedAt_def listChallenge_def
        authChallenge_def quoted_def dq_def isSpace_def Let_def startsWith_eval
        del: startsWith.simps(3))

lemma sample_challenges:
  "parseChallenge listChallenge
     = \<lparr> ch_realm = ''testrealm@host.com'', ch_nonce = ''dcd98b7102dd2f0e8b11d0f600bfb0c093'',
         ch_qop = ''auth,auth-int'', ch_opaque = ''5ccc069c403ebaf9f0171e9517f40e41'',
         ch_algo = ''MD5'' \<rparr>"
  "parseChallenge authChallenge
     = \<lparr> ch_realm = ''testrealm@host.com'', ch_nonce = ''dcd98b7102dd2f0e8b11d0f600bfb0c093'',
         ch_qop = ''auth'', ch_opaque = ''5ccc069c403ebaf9f0171e9517f40e41'',
         ch_algo = ''MD5'' \<rparr>"
  by (simp_all add: parseChallenge_def digestAlgo_def sample_challenge_params)

subsection \<open>The hash on the sample values\<close>

text \<open>
  MD5 of the five strings the worked example needs, each 64-byte block on its own; the
  third is the response of RFC 2617, section 3.5.
\<close>

lemma replicate_numeral_unfold: "replicate (numeral k) x = x # replicate (pred_numeral k) x"
  by (simp add: numeral_eq_Suc)

lemma not32: "NOT (w :: 32 word) = w XOR 0xffffffff"
proof -
  have "(0xffffffff :: 32 word) = - 1" by simp
  thus ?thesis by (simp only: bit.xor_one_right)
qed

lemma mask32: "(w :: 32 word) AND 0xffffffff = w"
proof -
  have "(0xffffffff :: 32 word) = - 1" by simp
  thus ?thesis by (simp only: bit.conj_one_right)
qed

text \<open>
  One round with every intermediate value masked to 32 bits, which keeps the numerals of
  an evaluation small; the masks change nothing on \<^typ>\<open>32 word\<close>.
\<close>

lemma md5_step_masked:
  "md5_step M (A, B, C, D) i =
     (let (F, g) =
            (if i < 16 then ((B AND C) OR ((B XOR 0xffffffff) AND D), i)
             else if i < 32 then ((D AND B) OR ((D XOR 0xffffffff) AND C), (5 * i + 1) mod 16)
             else if i < 48 then (B XOR C XOR D, (3 * i + 5) mod 16)
             else (C XOR (B OR (D XOR 0xffffffff)), (7 * i) mod 16));
          F' = (F + A + md5_K ! i + M ! g) AND 0xffffffff
      in (D, (B + rotl32 F' (md5_shift ! i)) AND 0xffffffff, B, C))"
  unfolding md5_step_def not32 mask32 by simp

lemmas md5_block_eval =
  md5_block_def md5_step_masked md5_K_def md5_shift_def rotl32_def upt_conv_Cons

lemma md5_pad_ha1:
  "md5_pad (concat (map utf8 (codeUnits
     ''Mufasa:testrealm@host.com:Circle Of Life'')))
   = [77, 117, 102, 97, 115, 97, 58, 116, 101, 115, 116, 114, 101, 97, 108, 109,
     64, 104, 111, 115, 116, 46, 99, 111, 109, 58, 67, 105, 114, 99, 108, 101,
     32, 79, 102, 32, 76, 105, 102, 101, 128, 0, 0, 0, 0, 0, 0, 0,
     0, 0, 0, 0, 0, 0, 0, 0, 64, 1, 0, 0, 0, 0, 0, 0]"
  by (simp add: md5_pad_def utf8_def codeUnits_def le_bytes_def upt_conv_Cons replicate_numeral_unfold)

lemma md5_block_ha1_1:
  "md5_block (1732584193, 4023233417, 2562383102, 271733878)
     [77, 117, 102, 97, 115, 97, 58, 116, 101, 115, 116, 114, 101, 97, 108, 109,
     64, 104, 111, 115, 116, 46, 99, 111, 109, 58, 67, 105, 114, 99, 108, 101,
     32, 79, 102, 32, 76, 105, 102, 101, 128, 0, 0, 0, 0, 0, 0, 0,
     0, 0, 0, 0, 0, 0, 0, 0, 64, 1, 0, 0, 0, 0, 0, 0]
   = (2020974227, 1362927341, 3458876810, 3921437671)"
  by (simp add: md5_block_eval)

lemma md5_state_ha1:
  "md5_blocks (1732584193, 4023233417, 2562383102, 271733878)
     [77, 117, 102, 97, 115, 97, 58, 116, 101, 115, 116, 114, 101, 97, 108, 109,
     64, 104, 111, 115, 116, 46, 99, 111, 109, 58, 67, 105, 114, 99, 108, 101,
     32, 79, 102, 32, 76, 105, 102, 101, 128, 0, 0, 0, 0, 0, 0, 0,
     0, 0, 0, 0, 0, 0, 0, 0, 64, 1, 0, 0, 0, 0, 0, 0]
   = (2020974227, 1362927341, 3458876810, 3921437671)"
  by (simp add: md5_blocks.simps md5_block_ha1_1 del: One_nat_def)

lemma md5_ha1:
  "md5_hex (codeUnits ''Mufasa:testrealm@host.com:Circle Of Life'')
   = ''939e7578ed9e3c518a452acee763bce9''"
  unfolding md5_hex_def md5_pad_ha1 md5_state_ha1
  by (simp add: le_bytes_def hexByte_def hexDigit_def upt_conv_Cons)

lemma md5_pad_ha2:
  "md5_pad (concat (map utf8 (codeUnits
     ''GET:/dir/index.html'')))
   = [71, 69, 84, 58, 47, 100, 105, 114, 47, 105, 110, 100, 101, 120, 46, 104,
     116, 109, 108, 128, 0, 0, 0, 0, 0, 0, 0, 0, 0, 0, 0, 0,
     0, 0, 0, 0, 0, 0, 0, 0, 0, 0, 0, 0, 0, 0, 0, 0,
     0, 0, 0, 0, 0, 0, 0, 0, 152, 0, 0, 0, 0, 0, 0, 0]"
  by (simp add: md5_pad_def utf8_def codeUnits_def le_bytes_def upt_conv_Cons replicate_numeral_unfold)

lemma md5_block_ha2_1:
  "md5_block (1732584193, 4023233417, 2562383102, 271733878)
     [71, 69, 84, 58, 47, 100, 105, 114, 47, 105, 110, 100, 101, 120, 46, 104,
     116, 109, 108, 128, 0, 0, 0, 0, 0, 0, 0, 0, 0, 0, 0, 0,
     0, 0, 0, 0, 0, 0, 0, 0, 0, 0, 0, 0, 0, 0, 0, 0,
     0, 0, 0, 0, 0, 0, 0, 0, 152, 0, 0, 0, 0, 0, 0, 0]
   = (2733879097, 1863497402, 714353459, 1714646521)"
  by (simp add: md5_block_eval)

lemma md5_state_ha2:
  "md5_blocks (1732584193, 4023233417, 2562383102, 271733878)
     [71, 69, 84, 58, 47, 100, 105, 114, 47, 105, 110, 100, 101, 120, 46, 104,
     116, 109, 108, 128, 0, 0, 0, 0, 0, 0, 0, 0, 0, 0, 0, 0,
     0, 0, 0, 0, 0, 0, 0, 0, 0, 0, 0, 0, 0, 0, 0, 0,
     0, 0, 0, 0, 0, 0, 0, 0, 152, 0, 0, 0, 0, 0, 0, 0]
   = (2733879097, 1863497402, 714353459, 1714646521)"
  by (simp add: md5_blocks.simps md5_block_ha2_1 del: One_nat_def)

lemma md5_ha2:
  "md5_hex (codeUnits ''GET:/dir/index.html'')
   = ''39aff3a2bab6126f332b942af96d3366''"
  unfolding md5_hex_def md5_pad_ha2 md5_state_ha2
  by (simp add: le_bytes_def hexByte_def hexDigit_def upt_conv_Cons)

lemma md5_pad_auth:
  "md5_pad (concat (map utf8 (codeUnits
     ''939e7578ed9e3c518a452acee763bce9:dcd98b7102dd2f0e8b11d0f600bfb0c093:00000001:0a4f113b:auth:39aff3a2bab6126f332b942af96d3366'')))
   = [57, 51, 57, 101, 55, 53, 55, 56, 101, 100, 57, 101, 51, 99, 53, 49,
     56, 97, 52, 53, 50, 97, 99, 101, 101, 55, 54, 51, 98, 99, 101, 57,
     58, 100, 99, 100, 57, 56, 98, 55, 49, 48, 50, 100, 100, 50, 102, 48,
     101, 56, 98, 49, 49, 100, 48, 102, 54, 48, 48, 98, 102, 98, 48, 99,
     48, 57, 51, 58, 48, 48, 48, 48, 48, 48, 48, 49, 58, 48, 97, 52,
     102, 49, 49, 51, 98, 58, 97, 117, 116, 104, 58, 51, 57, 97, 102, 102,
     51, 97, 50, 98, 97, 98, 54, 49, 50, 54, 102, 51, 51, 50, 98, 57,
     52, 50, 97, 102, 57, 54, 100, 51, 51, 54, 54, 128, 0, 0, 0, 0,
     0, 0, 0, 0, 0, 0, 0, 0, 0, 0, 0, 0, 0, 0, 0, 0,
     0, 0, 0, 0, 0, 0, 0, 0, 0, 0, 0, 0, 0, 0, 0, 0,
     0, 0, 0, 0, 0, 0, 0, 0, 0, 0, 0, 0, 0, 0, 0, 0,
     0, 0, 0, 0, 0, 0, 0, 0, 216, 3, 0, 0, 0, 0, 0, 0]"
  by (simp add: md5_pad_def utf8_def codeUnits_def le_bytes_def upt_conv_Cons replicate_numeral_unfold)

lemma md5_block_auth_1:
  "md5_block (1732584193, 4023233417, 2562383102, 271733878)
     [57, 51, 57, 101, 55, 53, 55, 56, 101, 100, 57, 101, 51, 99, 53, 49,
     56, 97, 52, 53, 50, 97, 99, 101, 101, 55, 54, 51, 98, 99, 101, 57,
     58, 100, 99, 100, 57, 56, 98, 55, 49, 48, 50, 100, 100, 50, 102, 48,
     101, 56, 98, 49, 49, 100, 48, 102, 54, 48, 48, 98, 102, 98, 48, 99]
   = (2578798642, 1561171500, 1312374341, 3914115046)"
  by (simp add: md5_block_eval)

lemma md5_block_auth_2:
  "md5_block (2578798642, 1561171500, 1312374341, 3914115046)
     [48, 57, 51, 58, 48, 48, 48, 48, 48, 48, 48, 49, 58, 48, 97, 52,
     102, 49, 49, 51, 98, 58, 97, 117, 116, 104, 58, 51, 57, 97, 102, 102,
     51, 97, 50, 98, 97, 98, 54, 49, 50, 54, 102, 51, 51, 50, 98, 57,
     52, 50, 97, 102, 57, 54, 100, 51, 51, 54, 54, 128, 0, 0, 0, 0]
   = (2974503112, 1298818125, 1640457398, 2484794848)"
  by (simp add: md5_block_eval)

lemma md5_block_auth_3:
  "md5_block (2974503112, 1298818125, 1640457398, 2484794848)
     [0, 0, 0, 0, 0, 0, 0, 0, 0, 0, 0, 0, 0, 0, 0, 0,
     0, 0, 0, 0, 0, 0, 0, 0, 0, 0, 0, 0, 0, 0, 0, 0,
     0, 0, 0, 0, 0, 0, 0, 0, 0, 0, 0, 0, 0, 0, 0, 0,
     0, 0, 0, 0, 0, 0, 0, 0, 216, 3, 0, 0, 0, 0, 0, 0]
   = (3841599846, 1403032467, 2013873559, 4048452688)"
  by (simp add: md5_block_eval)

lemma md5_state_auth:
  "md5_blocks (1732584193, 4023233417, 2562383102, 271733878)
     [57, 51, 57, 101, 55, 53, 55, 56, 101, 100, 57, 101, 51, 99, 53, 49,
     56, 97, 52, 53, 50, 97, 99, 101, 101, 55, 54, 51, 98, 99, 101, 57,
     58, 100, 99, 100, 57, 56, 98, 55, 49, 48, 50, 100, 100, 50, 102, 48,
     101, 56, 98, 49, 49, 100, 48, 102, 54, 48, 48, 98, 102, 98, 48, 99,
     48, 57, 51, 58, 48, 48, 48, 48, 48, 48, 48, 49, 58, 48, 97, 52,
     102, 49, 49, 51, 98, 58, 97, 117, 116, 104, 58, 51, 57, 97, 102, 102,
     51, 97, 50, 98, 97, 98, 54, 49, 50, 54, 102, 51, 51, 50, 98, 57,
     52, 50, 97, 102, 57, 54, 100, 51, 51, 54, 54, 128, 0, 0, 0, 0,
     0, 0, 0, 0, 0, 0, 0, 0, 0, 0, 0, 0, 0, 0, 0, 0,
     0, 0, 0, 0, 0, 0, 0, 0, 0, 0, 0, 0, 0, 0, 0, 0,
     0, 0, 0, 0, 0, 0, 0, 0, 0, 0, 0, 0, 0, 0, 0, 0,
     0, 0, 0, 0, 0, 0, 0, 0, 216, 3, 0, 0, 0, 0, 0, 0]
   = (3841599846, 1403032467, 2013873559, 4048452688)"
  by (simp add: md5_blocks.simps md5_block_auth_1 md5_block_auth_2 md5_block_auth_3 del: One_nat_def)

lemma md5_auth:
  "md5_hex (codeUnits ''939e7578ed9e3c518a452acee763bce9:dcd98b7102dd2f0e8b11d0f600bfb0c093:00000001:0a4f113b:auth:39aff3a2bab6126f332b942af96d3366'')
   = ''6629fae49393a05397450978507c4ef1''"
  unfolding md5_hex_def md5_pad_auth md5_state_auth
  by (simp add: le_bytes_def hexByte_def hexDigit_def upt_conv_Cons)

lemma md5_pad_legacy:
  "md5_pad (concat (map utf8 (codeUnits
     ''939e7578ed9e3c518a452acee763bce9:dcd98b7102dd2f0e8b11d0f600bfb0c093:39aff3a2bab6126f332b942af96d3366'')))
   = [57, 51, 57, 101, 55, 53, 55, 56, 101, 100, 57, 101, 51, 99, 53, 49,
     56, 97, 52, 53, 50, 97, 99, 101, 101, 55, 54, 51, 98, 99, 101, 57,
     58, 100, 99, 100, 57, 56, 98, 55, 49, 48, 50, 100, 100, 50, 102, 48,
     101, 56, 98, 49, 49, 100, 48, 102, 54, 48, 48, 98, 102, 98, 48, 99,
     48, 57, 51, 58, 51, 57, 97, 102, 102, 51, 97, 50, 98, 97, 98, 54,
     49, 50, 54, 102, 51, 51, 50, 98, 57, 52, 50, 97, 102, 57, 54, 100,
     51, 51, 54, 54, 128, 0, 0, 0, 0, 0, 0, 0, 0, 0, 0, 0,
     0, 0, 0, 0, 0, 0, 0, 0, 32, 3, 0, 0, 0, 0, 0, 0]"
  by (simp add: md5_pad_def utf8_def codeUnits_def le_bytes_def upt_conv_Cons replicate_numeral_unfold)

lemma md5_block_legacy_1:
  "md5_block (1732584193, 4023233417, 2562383102, 271733878)
     [57, 51, 57, 101, 55, 53, 55, 56, 101, 100, 57, 101, 51, 99, 53, 49,
     56, 97, 52, 53, 50, 97, 99, 101, 101, 55, 54, 51, 98, 99, 101, 57,
     58, 100, 99, 100, 57, 56, 98, 55, 49, 48, 50, 100, 100, 50, 102, 48,
     101, 56, 98, 49, 49, 100, 48, 102, 54, 48, 48, 98, 102, 98, 48, 99]
   = (2578798642, 1561171500, 1312374341, 3914115046)"
  by (simp add: md5_block_eval)

lemma md5_block_legacy_2:
  "md5_block (2578798642, 1561171500, 1312374341, 3914115046)
     [48, 57, 51, 58, 51, 57, 97, 102, 102, 51, 97, 50, 98, 97, 98, 54,
     49, 50, 54, 102, 51, 51, 50, 98, 57, 52, 50, 97, 102, 57, 54, 100,
     51, 51, 54, 54, 128, 0, 0, 0, 0, 0, 0, 0, 0, 0, 0, 0,
     0, 0, 0, 0, 0, 0, 0, 0, 32, 3, 0, 0, 0, 0, 0, 0]
   = (3268939623, 1611401183, 459752880, 50275467)"
  by (simp add: md5_block_eval)

lemma md5_state_legacy:
  "md5_blocks (1732584193, 4023233417, 2562383102, 271733878)
     [57, 51, 57, 101, 55, 53, 55, 56, 101, 100, 57, 101, 51, 99, 53, 49,
     56, 97, 52, 53, 50, 97, 99, 101, 101, 55, 54, 51, 98, 99, 101, 57,
     58, 100, 99, 100, 57, 56, 98, 55, 49, 48, 50, 100, 100, 50, 102, 48,
     101, 56, 98, 49, 49, 100, 48, 102, 54, 48, 48, 98, 102, 98, 48, 99,
     48, 57, 51, 58, 51, 57, 97, 102, 102, 51, 97, 50, 98, 97, 98, 54,
     49, 50, 54, 102, 51, 51, 50, 98, 57, 52, 50, 97, 102, 57, 54, 100,
     51, 51, 54, 54, 128, 0, 0, 0, 0, 0, 0, 0, 0, 0, 0, 0,
     0, 0, 0, 0, 0, 0, 0, 0, 32, 3, 0, 0, 0, 0, 0, 0]
   = (3268939623, 1611401183, 459752880, 50275467)"
  by (simp add: md5_blocks.simps md5_block_legacy_1 md5_block_legacy_2 del: One_nat_def)

lemma md5_legacy:
  "md5_hex (codeUnits ''939e7578ed9e3c518a452acee763bce9:dcd98b7102dd2f0e8b11d0f600bfb0c093:39aff3a2bab6126f332b942af96d3366'')
   = ''670fd8c2df070c60b045671b8b24ff02''"
  unfolding md5_hex_def md5_pad_legacy md5_state_legacy
  by (simp add: le_bytes_def hexByte_def hexDigit_def upt_conv_Cons)

lemma md5_pad_list:
  "md5_pad (concat (map utf8 (codeUnits
     ''939e7578ed9e3c518a452acee763bce9:dcd98b7102dd2f0e8b11d0f600bfb0c093:00000001:0a4f113b:auth,auth-int:39aff3a2bab6126f332b942af96d3366'')))
   = [57, 51, 57, 101, 55, 53, 55, 56, 101, 100, 57, 101, 51, 99, 53, 49,
     56, 97, 52, 53, 50, 97, 99, 101, 101, 55, 54, 51, 98, 99, 101, 57,
     58, 100, 99, 100, 57, 56, 98, 55, 49, 48, 50, 100, 100, 50, 102, 48,
     101, 56, 98, 49, 49, 100, 48, 102, 54, 48, 48, 98, 102, 98, 48, 99,
     48, 57, 51, 58, 48, 48, 48, 48, 48, 48, 48, 49, 58, 48, 97, 52,
     102, 49, 49, 51, 98, 58, 97, 117, 116, 104, 44, 97, 117, 116, 104, 45,
     105, 110, 116, 58, 51, 57, 97, 102, 102, 51, 97, 50, 98, 97, 98, 54,
     49, 50, 54, 102, 51, 51, 50, 98, 57, 52, 50, 97, 102, 57, 54, 100,
     51, 51, 54, 54, 128, 0, 0, 0, 0, 0, 0, 0, 0, 0, 0, 0,
     0, 0, 0, 0, 0, 0, 0, 0, 0, 0, 0, 0, 0, 0, 0, 0,
     0, 0, 0, 0, 0, 0, 0, 0, 0, 0, 0, 0, 0, 0, 0, 0,
     0, 0, 0, 0, 0, 0, 0, 0, 32, 4, 0, 0, 0, 0, 0, 0]"
  by (simp add: md5_pad_def utf8_def codeUnits_def le_bytes_def upt_conv_Cons replicate_numeral_unfold)

lemma md5_block_list_1:
  "md5_block (1732584193, 4023233417, 2562383102, 271733878)
     [57, 51, 57, 101, 55, 53, 55, 56, 101, 100, 57, 101, 51, 99, 53, 49,
     56, 97, 52, 53, 50, 97, 99, 101, 101, 55, 54, 51, 98, 99, 101, 57,
     58, 100, 99, 100, 57, 56, 98, 55, 49, 48, 50, 100, 100, 50, 102, 48,
     101, 56, 98, 49, 49, 100, 48, 102, 54, 48, 48, 98, 102, 98, 48, 99]
   = (2578798642, 1561171500, 1312374341, 3914115046)"
  by (simp add: md5_block_eval)

lemma md5_block_list_2:
  "md5_block (2578798642, 1561171500, 1312374341, 3914115046)
     [48, 57, 51, 58, 48, 48, 48, 48, 48, 48, 48, 49, 58, 48, 97, 52,
     102, 49, 49, 51, 98, 58, 97, 117, 116, 104, 44, 97, 117, 116, 104, 45,
     105, 110, 116, 58, 51, 57, 97, 102, 102, 51, 97, 50, 98, 97, 98, 54,
     49, 50, 54, 102, 51, 51, 50, 98, 57, 52, 50, 97, 102, 57, 54, 100]
   = (1860662866, 578280951, 2293108265, 2248291975)"
  by (simp add: md5_block_eval)

lemma md5_block_list_3:
  "md5_block (1860662866, 578280951, 2293108265, 2248291975)
     [51, 51, 54, 54, 128, 0, 0, 0, 0, 0, 0, 0, 0, 0, 0, 0,
     0, 0, 0, 0, 0, 0, 0, 0, 0, 0, 0, 0, 0, 0, 0, 0,
     0, 0, 0, 0, 0, 0, 0, 0, 0, 0, 0, 0, 0, 0, 0, 0,
     0, 0, 0, 0, 0, 0, 0, 0, 32, 4, 0, 0, 0, 0, 0, 0]
   = (2172589818, 26546429, 2025047281, 3283687307)"
  by (simp add: md5_block_eval)

lemma md5_state_list:
  "md5_blocks (1732584193, 4023233417, 2562383102, 271733878)
     [57, 51, 57, 101, 55, 53, 55, 56, 101, 100, 57, 101, 51, 99, 53, 49,
     56, 97, 52, 53, 50, 97, 99, 101, 101, 55, 54, 51, 98, 99, 101, 57,
     58, 100, 99, 100, 57, 56, 98, 55, 49, 48, 50, 100, 100, 50, 102, 48,
     101, 56, 98, 49, 49, 100, 48, 102, 54, 48, 48, 98, 102, 98, 48, 99,
     48, 57, 51, 58, 48, 48, 48, 48, 48, 48, 48, 49, 58, 48, 97, 52,
     102, 49, 49, 51, 98, 58, 97, 117, 116, 104, 44, 97, 117, 116, 104, 45,
     105, 110, 116, 58, 51, 57, 97, 102, 102, 51, 97, 50, 98, 97, 98, 54,
     49, 50, 54, 102, 51, 51, 50, 98, 57, 52, 50, 97, 102, 57, 54, 100,
     51, 51, 54, 54, 128, 0, 0, 0, 0, 0, 0, 0, 0, 0, 0, 0,
     0, 0, 0, 0, 0, 0, 0, 0, 0, 0, 0, 0, 0, 0, 0, 0,
     0, 0, 0, 0, 0, 0, 0, 0, 0, 0, 0, 0, 0, 0, 0, 0,
     0, 0, 0, 0, 0, 0, 0, 0, 32, 4, 0, 0, 0, 0, 0, 0]
   = (2172589818, 26546429, 2025047281, 3283687307)"
  by (simp add: md5_blocks.simps md5_block_list_1 md5_block_list_2 md5_block_list_3 del: One_nat_def)

lemma md5_list:
  "md5_hex (codeUnits ''939e7578ed9e3c518a452acee763bce9:dcd98b7102dd2f0e8b11d0f600bfb0c093:00000001:0a4f113b:auth,auth-int:39aff3a2bab6126f332b942af96d3366'')
   = ''fa167f81fd109501f1c4b3788b17b9c3''"
  unfolding md5_hex_def md5_pad_list md5_state_list
  by (simp add: le_bytes_def hexByte_def hexDigit_def upt_conv_Cons)

subsection \<open>The response\<close>

text \<open>
  C5, as stated, fails. The challenge of RFC 2617's worked example carries a \<open>qop\<close>
  value, the list \<open>auth,auth-int\<close>; for it \<open>buildDigestAuth\<close> emits the response without
  \<open>qop\<close>, \<open>MD5(HA1:nonce:HA2)\<close>, and no \<open>qop\<close>, \<open>nc\<close> or \<open>cnonce\<close> field, where the claim has
  \<open>MD5(HA1:nonce:nc:cnonce:qop:HA2)\<close>.
\<close>

theorem digest_qop_list_counterexample:
  "ch_qop (parseChallenge listChallenge) = ''auth,auth-int''
   \<and> fst (digestResponse md5_hex ''0a4f113b'' (codeUnits ''GET'') ''/dir/index.html''
             ''Mufasa'' ''Circle Of Life'' listChallenge)
       = ''670fd8c2df070c60b045671b8b24ff02''
   \<and> claimedResponse md5_hex ''0a4f113b'' (codeUnits ''GET'') ''/dir/index.html''
         ''Mufasa'' ''Circle Of Life'' (parseChallenge listChallenge)
       = ''fa167f81fd109501f1c4b3788b17b9c3''
   \<and> fst (digestResponse md5_hex ''0a4f113b'' (codeUnits ''GET'') ''/dir/index.html''
             ''Mufasa'' ''Circle Of Life'' listChallenge)
       \<noteq> claimedResponse md5_hex ''0a4f113b'' (codeUnits ''GET'') ''/dir/index.html''
           ''Mufasa'' ''Circle Of Life'' (parseChallenge listChallenge)
   \<and> buildDigestAuth md5_hex ''0a4f113b'' ''GET'' ''/dir/index.html''
         ''Mufasa'' ''Circle Of Life'' listChallenge
       = ''Digest username='' @ quoted ''Mufasa'' @ '', realm='' @ quoted ''testrealm@host.com''
         @ '', nonce='' @ quoted ''dcd98b7102dd2f0e8b11d0f600bfb0c093''
         @ '', uri='' @ quoted ''/dir/index.html'' @ '', algorithm=MD5, response=''
         @ quoted ''670fd8c2df070c60b045671b8b24ff02''
         @ '', opaque='' @ quoted ''5ccc069c403ebaf9f0171e9517f40e41''
   \<and> buildDigestAuth_discovery md5_hex ''0a4f113b'' ''GET'' ''/dir/index.html''
         ''Mufasa'' ''Circle Of Life'' listChallenge
       = ''Digest username='' @ quoted ''Mufasa'' @ '', realm='' @ quoted ''testrealm@host.com''
         @ '', nonce='' @ quoted ''dcd98b7102dd2f0e8b11d0f600bfb0c093''
         @ '', uri='' @ quoted ''/dir/index.html'' @ '', algorithm=MD5, response=''
         @ quoted ''670fd8c2df070c60b045671b8b24ff02''
         @ '', opaque='' @ quoted ''5ccc069c403ebaf9f0171e9517f40e41''"
proof -
  let ?ch = "\<lparr> ch_realm = ''testrealm@host.com'', ch_nonce = ''dcd98b7102dd2f0e8b11d0f600bfb0c093'',
           ch_qop = ''auth,auth-int'', ch_opaque = ''5ccc069c403ebaf9f0171e9517f40e41'',
           ch_algo = ''MD5'' \<rparr>"
  have code: "expectedResponse md5_hex ''0a4f113b'' (codeUnits ''GET'') ''/dir/index.html''
         ''Mufasa'' ''Circle Of Life'' ?ch
       = ''670fd8c2df070c60b045671b8b24ff02''"
    by (simp add: expectedResponse_def specHA1_def specHA2_def not_session_variant
          codeUnits_append md5_ha1 md5_ha2 md5_legacy)
  have claim: "claimedResponse md5_hex ''0a4f113b'' (codeUnits ''GET'') ''/dir/index.html''
         ''Mufasa'' ''Circle Of Life'' ?ch
       = ''fa167f81fd109501f1c4b3788b17b9c3''"
    by (simp add: claimedResponse_def specHA1_def specHA2_def not_session_variant
          codeUnits_append md5_ha1 md5_ha2 md5_list)
  have resp: "fst (digestResponse md5_hex ''0a4f113b'' (codeUnits ''GET'') ''/dir/index.html''
             ''Mufasa'' ''Circle Of Life'' listChallenge)
       = ''670fd8c2df070c60b045671b8b24ff02''"
    by (simp only: digestResponse_expected sample_challenges code)
  have differ: "fst (digestResponse md5_hex ''0a4f113b'' (codeUnits ''GET'') ''/dir/index.html''
             ''Mufasa'' ''Circle Of Life'' listChallenge)
       \<noteq> claimedResponse md5_hex ''0a4f113b'' (codeUnits ''GET'') ''/dir/index.html''
           ''Mufasa'' ''Circle Of Life'' (parseChallenge listChallenge)"
    unfolding sample_challenges resp claim by simp
  have layout: "authorizationHeader ''Mufasa'' ''/dir/index.html'' ?ch ''0a4f113b''
         ''670fd8c2df070c60b045671b8b24ff02''
       = ''Digest username='' @ quoted ''Mufasa'' @ '', realm='' @ quoted ''testrealm@host.com''
         @ '', nonce='' @ quoted ''dcd98b7102dd2f0e8b11d0f600bfb0c093''
         @ '', uri='' @ quoted ''/dir/index.html'' @ '', algorithm=MD5, response=''
         @ quoted ''670fd8c2df070c60b045671b8b24ff02''
         @ '', opaque='' @ quoted ''5ccc069c403ebaf9f0171e9517f40e41''"
    by (simp add: authorizationHeader_def)
  have client: "buildDigestAuth md5_hex ''0a4f113b'' ''GET'' ''/dir/index.html''
         ''Mufasa'' ''Circle Of Life'' listChallenge
       = ''Digest username='' @ quoted ''Mufasa'' @ '', realm='' @ quoted ''testrealm@host.com''
         @ '', nonce='' @ quoted ''dcd98b7102dd2f0e8b11d0f600bfb0c093''
         @ '', uri='' @ quoted ''/dir/index.html'' @ '', algorithm=MD5, response=''
         @ quoted ''670fd8c2df070c60b045671b8b24ff02''
         @ '', opaque='' @ quoted ''5ccc069c403ebaf9f0171e9517f40e41''"
    unfolding buildDigestAuth_def digestAuthHeader_layout toUpperCase_samples(1)
      sample_challenges code
    by (rule layout)
  have discovery: "buildDigestAuth_discovery md5_hex ''0a4f113b'' ''GET'' ''/dir/index.html''
         ''Mufasa'' ''Circle Of Life'' listChallenge
       = ''Digest username='' @ quoted ''Mufasa'' @ '', realm='' @ quoted ''testrealm@host.com''
         @ '', nonce='' @ quoted ''dcd98b7102dd2f0e8b11d0f600bfb0c093''
         @ '', uri='' @ quoted ''/dir/index.html'' @ '', algorithm=MD5, response=''
         @ quoted ''670fd8c2df070c60b045671b8b24ff02''
         @ '', opaque='' @ quoted ''5ccc069c403ebaf9f0171e9517f40e41''"
    unfolding buildDigestAuth_discovery_def digestAuthHeader_layout sample_challenges code
    by (rule layout)
  have qop: "ch_qop (parseChallenge listChallenge) = ''auth,auth-int''"
    unfolding sample_challenges by simp
  from qop resp claim[folded sample_challenges(1)] differ client discovery show ?thesis
    by (intro conjI)
qed

text \<open>
  C5, amended. With the challenge values read by \<open>digestParam\<close> (the algorithm defaulting
  to \<open>MD5\<close>), both copies of \<open>buildDigestAuth\<close> emit a header whose response is
  \<open>MD5(HA1:nonce:00000001:cnonce:qop:HA2)\<close> when the \<open>qop\<close> value is exactly \<open>auth\<close> or
  \<open>auth-int\<close>, and \<open>MD5(HA1:nonce:HA2)\<close> for any other value or none; \<open>HA1\<close> is
  \<open>MD5(username:realm:password)\<close>, or \<open>MD5(MD5(username:realm:password):nonce:)\<close> when the
  upper-cased algorithm is \<open>MD5-SESS\<close>; \<open>HA2\<close> is \<open>MD5(method:uri)\<close>, the protocol client
  upper-casing the method first.
\<close>

theorem buildDigestAuth_response:
  "buildDigestAuth md5 cnonce method uri username password wwwAuth
     = authorizationHeader username uri (parseChallenge wwwAuth) cnonce
         (expectedResponse md5 cnonce (toUpperCase method) uri username password
            (parseChallenge wwwAuth))
   \<and> buildDigestAuth_discovery md5 cnonce method uri username password wwwAuth
     = authorizationHeader username uri (parseChallenge wwwAuth) cnonce
         (expectedResponse md5 cnonce (codeUnits method) uri username password
            (parseChallenge wwwAuth))"
  by (simp add: buildDigestAuth_def buildDigestAuth_discovery_def digestAuthHeader_layout)

theorem buildDigestAuth_response_witness:
  "buildDigestAuth md5_hex ''0a4f113b'' ''GET'' ''/dir/index.html''
     ''Mufasa'' ''Circle Of Life'' authChallenge
   = ''Digest username='' @ quoted ''Mufasa'' @ '', realm='' @ quoted ''testrealm@host.com''
         @ '', nonce='' @ quoted ''dcd98b7102dd2f0e8b11d0f600bfb0c093''
         @ '', uri='' @ quoted ''/dir/index.html'' @ '', algorithm=MD5, response=''
         @ quoted ''6629fae49393a05397450978507c4ef1''
         @ '', opaque='' @ quoted ''5ccc069c403ebaf9f0171e9517f40e41''
         @ '', qop=auth, nc=00000001, cnonce='' @ quoted ''0a4f113b''
   \<and> buildDigestAuth_discovery md5_hex ''0a4f113b'' ''GET'' ''/dir/index.html''
     ''Mufasa'' ''Circle Of Life'' authChallenge
   = ''Digest username='' @ quoted ''Mufasa'' @ '', realm='' @ quoted ''testrealm@host.com''
         @ '', nonce='' @ quoted ''dcd98b7102dd2f0e8b11d0f600bfb0c093''
         @ '', uri='' @ quoted ''/dir/index.html'' @ '', algorithm=MD5, response=''
         @ quoted ''6629fae49393a05397450978507c4ef1''
         @ '', opaque='' @ quoted ''5ccc069c403ebaf9f0171e9517f40e41''
         @ '', qop=auth, nc=00000001, cnonce='' @ quoted ''0a4f113b''"
proof -
  let ?ch = "\<lparr> ch_realm = ''testrealm@host.com'', ch_nonce = ''dcd98b7102dd2f0e8b11d0f600bfb0c093'',
           ch_qop = ''auth'', ch_opaque = ''5ccc069c403ebaf9f0171e9517f40e41'',
           ch_algo = ''MD5'' \<rparr>"
  have resp: "expectedResponse md5_hex ''0a4f113b'' (codeUnits ''GET'') ''/dir/index.html''
         ''Mufasa'' ''Circle Of Life'' ?ch
       = ''6629fae49393a05397450978507c4ef1''"
    by (simp add: expectedResponse_def specHA1_def specHA2_def not_session_variant
          codeUnits_append md5_ha1 md5_ha2 md5_auth)
  have layout: "authorizationHeader ''Mufasa'' ''/dir/index.html'' ?ch ''0a4f113b''
         ''6629fae49393a05397450978507c4ef1''
       = ''Digest username='' @ quoted ''Mufasa'' @ '', realm='' @ quoted ''testrealm@host.com''
         @ '', nonce='' @ quoted ''dcd98b7102dd2f0e8b11d0f600bfb0c093''
         @ '', uri='' @ quoted ''/dir/index.html'' @ '', algorithm=MD5, response=''
         @ quoted ''6629fae49393a05397450978507c4ef1''
         @ '', opaque='' @ quoted ''5ccc069c403ebaf9f0171e9517f40e41''
         @ '', qop=auth, nc=00000001, cnonce='' @ quoted ''0a4f113b''"
    by (simp add: authorizationHeader_def)
  from buildDigestAuth_response[of md5_hex "''0a4f113b''" "''GET''" "''/dir/index.html''"
         "''Mufasa''" "''Circle Of Life''" authChallenge]
  have "buildDigestAuth md5_hex ''0a4f113b'' ''GET'' ''/dir/index.html''
          ''Mufasa'' ''Circle Of Life'' authChallenge
        = authorizationHeader ''Mufasa'' ''/dir/index.html'' ?ch ''0a4f113b''
            ''6629fae49393a05397450978507c4ef1''"
    and "buildDigestAuth_discovery md5_hex ''0a4f113b'' ''GET'' ''/dir/index.html''
          ''Mufasa'' ''Circle Of Life'' authChallenge
        = authorizationHeader ''Mufasa'' ''/dir/index.html'' ?ch ''0a4f113b''
            ''6629fae49393a05397450978507c4ef1''"
    by (simp_all only: sample_challenges toUpperCase_samples(1) resp)
  then show ?thesis
    unfolding layout by (intro conjI)
qed

end
